theory Spec2Isabelle
  imports Main
begin

section \<open>Data model\<close>

text \<open>
  The value caught by \<open>catch (e)\<close> and re-thrown by \<open>throw e\<close>. The client never
  inspects it, so only its identity matters.
\<close>

datatype error = Error string

text \<open>
  Modelled from the spec: the \<open>Configuration\<close> type is imported from
  \<open>../configuration/configuration\<close>; the client reads the credentials, the two retry
  counts and the two retry intervals (milliseconds) from it.
\<close>

record Configuration =
  emailAddress :: string
  password :: string
  maximumTokenRetry :: int
  tokenRetryInterval :: int
  maximumApiRetry :: int
  apiRetryInterval :: int

text \<open>
  Modelled from the spec: the token endpoint answers \<open>{access_token, expires_in}\<close>
  (\<open>./models/token-response\<close>), \<open>expires_in\<close> in seconds.
\<close>

record TokenResponse =
  access_token :: string
  expires_in :: int

text \<open>
  Modelled from the spec: a lock (\<open>./models/lock\<close>) is opaque to the client beyond
  \<open>id\<close> and \<open>name\<close>; a lock sync record (\<open>./models/lock-sync\<close>) is a snapshot keyed
  by the lock id.
\<close>

record Lock =
  lock_id :: int
  lock_name :: string

record LockSync =
  sync_id :: int

text \<open>
  Modelled from the spec: \<open>OperationStatus\<close> (\<open>./models/operation-status\<close>) is an enum of
  pending, other intermediate values, and \<open>Completed\<close>; an operation record
  (\<open>./models/operation-response\<close>) carries \<open>operationId\<close> and \<open>status\<close>.
\<close>

datatype OperationStatus = Pending | Completed | Intermediate nat

record Operation =
  operationId :: string
  status :: OperationStatus

text \<open>The interface \<open>DeviceActivity\<close>.\<close>

record DeviceActivity =
  activity_id :: int
  deviceId :: int
  userId :: int
  username :: string
  event :: int
  source :: int
  date :: string

text \<open>
  The response envelope \<open>{success, errorMessages, statusCode, result}\<close>, as the
  interface \<open>DeviceActivityResponse\<close> declares it; the other response models have the
  same shape with another payload type.
\<close>

record 'r Response =
  success :: bool
  errorMessages :: "string list"
  statusCode :: int
  result :: 'r

type_synonym LocksResponse = "Lock list Response"
type_synonym LocksSyncResponse = "LockSync list Response"
type_synonym LockSyncResponse = "LockSync Response"
type_synonym OperationResponse = "Operation Response"
type_synonym DeviceActivityResponse = "DeviceActivity list Response"

section \<open>The outside world\<close>

text \<open>
  The HTTP requests the client issues: the form-encoded password grant (user name and
  password), and the bearer-authenticated REST calls (the last argument is the access
  token of the \<open>Authorization\<close> header).
\<close>

datatype request =
    PostToken string string
  | GetLocks string
  | GetLocksSync string
  | GetLockSync int string
  | PostClose int string
  | PostOpen int string
  | PostPullSpring int string
  | GetOperation string string
  | GetDeviceActivity int int string

text \<open>
  The server and the network: what a request is answered with may depend on every
  request sent before it and on the request itself. \<open>Inl e\<close> is axios rejecting with
  \<open>e\<close> (network failure or an HTTP error status); \<open>Inr d\<close> is a response whose body
  \<open>response.data\<close> is \<open>d\<close>, of the type the call site instantiates axios with.
  \<open>latency\<close> is the time the request takes, in milliseconds.
\<close>

record env =
  post_token :: "request list \<Rightarrow> request \<Rightarrow> error + TokenResponse"
  get_locks :: "request list \<Rightarrow> request \<Rightarrow> error + LocksResponse"
  get_locks_sync :: "request list \<Rightarrow> request \<Rightarrow> error + LocksSyncResponse"
  get_lock_sync :: "request list \<Rightarrow> request \<Rightarrow> error + LockSyncResponse"
  operation :: "request list \<Rightarrow> request \<Rightarrow> error + OperationResponse"
  get_deviceactivity :: "request list \<Rightarrow> request \<Rightarrow> error + DeviceActivityResponse"
  latency :: "request list \<Rightarrow> request \<Rightarrow> nat"

text \<open>
  The state: the two private fields of the client (\<open>null\<close> is \<open>None\<close>, a \<open>Date\<close> is
  its \<open>getTime()\<close> in milliseconds), the clock that \<open>new Date()\<close> reads, and the
  requests sent so far, oldest first. Logging has no effect on any of these and is left
  out.
\<close>

record state =
  expirationDateTime :: "int option"
  accessToken :: "string option"
  clock :: int
  sent :: "request list"

definition initial :: "int \<Rightarrow> state" where
  "initial t = \<lparr>expirationDateTime = None, accessToken = None, clock = t, sent = []\<rparr>"

text \<open>Awaiting an axios call: the request is sent and the clock moves on.\<close>

definition send :: "env \<Rightarrow> request \<Rightarrow> state \<Rightarrow> state" where
  "send env req s =
     s\<lparr>clock := clock s + int (latency env (sent s) req), sent := sent s @ [req]\<rparr>"

text \<open>\<open>await new Promise(resolve => setTimeout(resolve, ms))\<close>.\<close>

definition delay :: "int \<Rightarrow> state \<Rightarrow> state" where
  "delay ms s = s\<lparr>clock := clock s + max 0 ms\<rparr>"

text \<open>
  \<open>if (!retryCount) { retryCount = d }\<close>: an omitted argument and \<open>0\<close> are both
  falsy.
\<close>

fun orDefault :: "int option \<Rightarrow> int \<Rightarrow> int" where
  "orDefault None d = d"
| "orDefault (Some n) d = (if n = 0 then d else n)"

text \<open>\<open>if (this.accessToken)\<close>: \<open>null\<close> and the empty string are both falsy.\<close>

fun cached :: "string option \<Rightarrow> string option" where
  "cached None = None"
| "cached (Some t) = (if t = [] then None else Some t)"

section \<open>The client\<close>

subsection \<open>getAccessTokenAsync\<close>

text \<open>The expiry check at the head of \<open>getAccessTokenAsync\<close>.\<close>

definition expire :: "state \<Rightarrow> state" where
  "expire s =
     (case expirationDateTime s of
        None \<Rightarrow> s
      | Some t \<Rightarrow>
          if t < clock s - 120 * 1000
          then s\<lparr>expirationDateTime := None, accessToken := None\<rparr>
          else s)"

function getAccessTokenAsync ::
  "Configuration \<Rightarrow> env \<Rightarrow> int option \<Rightarrow> state \<Rightarrow> (error + string) \<times> state" where
  "getAccessTokenAsync cfg env retryCount s =
     (let s0 = expire s in
      case cached (accessToken s0) of
        Some token \<Rightarrow> (Inr token, s0)
      | None \<Rightarrow>
          (let retryCount = orDefault retryCount (maximumTokenRetry cfg);
               req = PostToken (emailAddress cfg) (password cfg);
               reply = post_token env (sent s0) req;
               s1 = send env req s0
           in case reply of
                Inr response \<Rightarrow>
                  (let s2 = s1\<lparr>accessToken := Some (access_token response)\<rparr>;
                       s3 = s2\<lparr>expirationDateTime :=
                                 Some (clock s2 + expires_in response * 1000)\<rparr>
                   in (Inr (access_token response), s3))
              | Inl e \<Rightarrow>
                  (let retryCount = retryCount - 1 in
                   if retryCount > 0
                   then getAccessTokenAsync cfg env (Some retryCount)
                          (delay (tokenRetryInterval cfg) s1)
                   else (Inl e, s1))))"
  by pat_completeness auto
termination
  by (relation "measure (\<lambda>(cfg, env, retryCount, s).
        nat (orDefault retryCount (maximumTokenRetry cfg)))") auto

declare getAccessTokenAsync.simps [simp del]

subsection \<open>getLocksAsync and getLockByNameAsync\<close>

function getLocksAsync ::
  "Configuration \<Rightarrow> env \<Rightarrow> int option \<Rightarrow> state \<Rightarrow> (error + Lock list) \<times> state" where
  "getLocksAsync cfg env retryCount s =
     (let retryCount = orDefault retryCount (maximumApiRetry cfg) in
      case getAccessTokenAsync cfg env None s of
        (Inl e, s1) \<Rightarrow> (Inl e, s1)
      | (Inr token, s1) \<Rightarrow>
          (let req = GetLocks token;
               reply = get_locks env (sent s1) req;
               s2 = send env req s1
           in case reply of
                Inr response \<Rightarrow> (Inr (result response), s2)
              | Inl e \<Rightarrow>
                  (let retryCount = retryCount - 1 in
                   if retryCount > 0
                   then getLocksAsync cfg env (Some retryCount)
                          (delay (apiRetryInterval cfg) s2)
                   else (Inl e, s2))))"
  by pat_completeness auto
termination
  by (relation "measure (\<lambda>(cfg, env, retryCount, s).
        nat (orDefault retryCount (maximumApiRetry cfg)))") auto

declare getLocksAsync.simps [simp del]

definition getLockByNameAsync ::
  "Configuration \<Rightarrow> env \<Rightarrow> string \<Rightarrow> int option \<Rightarrow> state \<Rightarrow> (error + Lock option) \<times> state" where
  "getLockByNameAsync cfg env name retryCount s =
     (case getLocksAsync cfg env retryCount s of
        (Inl e, s1) \<Rightarrow> (Inl e, s1)
      | (Inr locks, s1) \<Rightarrow> (Inr (find (\<lambda>l. lock_name l = name) locks), s1))"

subsection \<open>syncLocksAsync and syncLockAsync\<close>

function syncLocksAsync ::
  "Configuration \<Rightarrow> env \<Rightarrow> int option \<Rightarrow> state \<Rightarrow> (error + LockSync list) \<times> state" where
  "syncLocksAsync cfg env retryCount s =
     (let retryCount = orDefault retryCount (maximumApiRetry cfg) in
      case getAccessTokenAsync cfg env None s of
        (Inl e, s1) \<Rightarrow> (Inl e, s1)
      | (Inr token, s1) \<Rightarrow>
          (let req = GetLocksSync token;
               reply = get_locks_sync env (sent s1) req;
               s2 = send env req s1
           in case reply of
                Inr response \<Rightarrow> (Inr (result response), s2)
              | Inl e \<Rightarrow>
                  (let retryCount = retryCount - 1 in
                   if retryCount > 0
                   then syncLocksAsync cfg env (Some retryCount)
                          (delay (apiRetryInterval cfg) s2)
                   else (Inl e, s2))))"
  by pat_completeness auto
termination
  by (relation "measure (\<lambda>(cfg, env, retryCount, s).
        nat (orDefault retryCount (maximumApiRetry cfg)))") auto

declare syncLocksAsync.simps [simp del]

function syncLockAsync ::
  "Configuration \<Rightarrow> env \<Rightarrow> int \<Rightarrow> int option \<Rightarrow> state \<Rightarrow> (error + LockSync) \<times> state" where
  "syncLockAsync cfg env id' retryCount s =
     (let retryCount = orDefault retryCount (maximumApiRetry cfg) in
      case getAccessTokenAsync cfg env None s of
        (Inl e, s1) \<Rightarrow> (Inl e, s1)
      | (Inr token, s1) \<Rightarrow>
          (let req = GetLockSync id' token;
               reply = get_lock_sync env (sent s1) req;
               s2 = send env req s1
           in case reply of
                Inr response \<Rightarrow> (Inr (result response), s2)
              | Inl e \<Rightarrow>
                  (let retryCount = retryCount - 1 in
                   if retryCount > 0
                   then syncLockAsync cfg env id' (Some retryCount)
                          (delay (apiRetryInterval cfg) s2)
                   else (Inl e, s2))))"
  by pat_completeness auto
termination
  by (relation "measure (\<lambda>(cfg, env, id', retryCount, s).
        nat (orDefault retryCount (maximumApiRetry cfg)))") auto

declare syncLockAsync.simps [simp del]

subsection \<open>closeAsync, openAsync and pullSpringAsync\<close>

text \<open>
  The loop \<open>while (response.data.result.status !== OperationStatus.Completed)\<close>, which
  the three commands share word for word but for the text they log: wait a second, GET
  the operation by the id of the latest response, and look again. An axios rejection
  leaves the loop as the exception it is (\<open>Inl\<close>); a loop that runs forever is
  \<open>None\<close>.
\<close>

partial_function (option) waitForCompletion ::
  "env \<Rightarrow> string \<Rightarrow> OperationResponse \<Rightarrow> state \<Rightarrow> ((error + unit) \<times> state) option" where
  "waitForCompletion env token response s =
     (if status (result response) \<noteq> Completed
      then (let s1 = delay 1000 s;
                req = GetOperation (operationId (result response)) token;
                reply = operation env (sent s1) req;
                s2 = send env req s1
            in case reply of
                 Inl e \<Rightarrow> Some (Inl e, s2)
               | Inr response' \<Rightarrow> waitForCompletion env token response' s2)
      else Some (Inr (), s))"

declare waitForCompletion.simps [code]

text \<open>
  The \<open>try\<close> block is the POST and the loop; \<open>catch\<close> sees a rejection of either and
  starts the whole command again.
\<close>

partial_function (option) closeAsync ::
  "Configuration \<Rightarrow> env \<Rightarrow> Lock \<Rightarrow> int option \<Rightarrow> state \<Rightarrow> ((error + unit) \<times> state) option" where
  "closeAsync cfg env lock retryCount s =
     (let retryCount = orDefault retryCount (maximumApiRetry cfg) in
      case getAccessTokenAsync cfg env None s of
        (Inl e, s1) \<Rightarrow> Some (Inl e, s1)
      | (Inr token, s1) \<Rightarrow>
          (let req = PostClose (lock_id lock) token;
               reply = operation env (sent s1) req;
               s2 = send env req s1;
               attempt = (case reply of
                            Inl e \<Rightarrow> Some (Inl e, s2)
                          | Inr response \<Rightarrow> waitForCompletion env token response s2)
           in case attempt of
                None \<Rightarrow> None
              | Some (Inr u, s3) \<Rightarrow> Some (Inr (), s3)
              | Some (Inl e, s3) \<Rightarrow>
                  (let retryCount = retryCount - 1 in
                   if retryCount > 0
                   then closeAsync cfg env lock (Some retryCount)
                          (delay (apiRetryInterval cfg) s3)
                   else Some (Inl e, s3))))"

declare closeAsync.simps [code]

partial_function (option) openAsync ::
  "Configuration \<Rightarrow> env \<Rightarrow> Lock \<Rightarrow> int option \<Rightarrow> state \<Rightarrow> ((error + unit) \<times> state) option" where
  "openAsync cfg env lock retryCount s =
     (let retryCount = orDefault retryCount (maximumApiRetry cfg) in
      case getAccessTokenAsync cfg env None s of
        (Inl e, s1) \<Rightarrow> Some (Inl e, s1)
      | (Inr token, s1) \<Rightarrow>
          (let req = PostOpen (lock_id lock) token;
               reply = operation env (sent s1) req;
               s2 = send env req s1;
               attempt = (case reply of
                            Inl e \<Rightarrow> Some (Inl e, s2)
                          | Inr response \<Rightarrow> waitForCompletion env token response s2)
           in case attempt of
                None \<Rightarrow> None
              | Some (Inr u, s3) \<Rightarrow> Some (Inr (), s3)
              | Some (Inl e, s3) \<Rightarrow>
                  (let retryCount = retryCount - 1 in
                   if retryCount > 0
                   then openAsync cfg env lock (Some retryCount)
                          (delay (apiRetryInterval cfg) s3)
                   else Some (Inl e, s3))))"

declare openAsync.simps [code]

partial_function (option) pullSpringAsync ::
  "Configuration \<Rightarrow> env \<Rightarrow> Lock \<Rightarrow> int option \<Rightarrow> state \<Rightarrow> ((error + unit) \<times> state) option" where
  "pullSpringAsync cfg env lock retryCount s =
     (let retryCount = orDefault retryCount (maximumApiRetry cfg) in
      case getAccessTokenAsync cfg env None s of
        (Inl e, s1) \<Rightarrow> Some (Inl e, s1)
      | (Inr token, s1) \<Rightarrow>
          (let req = PostPullSpring (lock_id lock) token;
               reply = operation env (sent s1) req;
               s2 = send env req s1;
               attempt = (case reply of
                            Inl e \<Rightarrow> Some (Inl e, s2)
                          | Inr response \<Rightarrow> waitForCompletion env token response s2)
           in case attempt of
                None \<Rightarrow> None
              | Some (Inr u, s3) \<Rightarrow> Some (Inr (), s3)
              | Some (Inl e, s3) \<Rightarrow>
                  (let retryCount = retryCount - 1 in
                   if retryCount > 0
                   then pullSpringAsync cfg env lock (Some retryCount)
                          (delay (apiRetryInterval cfg) s3)
                   else Some (Inl e, s3))))"

declare pullSpringAsync.simps [code]

subsection \<open>getDeviceActivityAsync and getLatestDeviceActivityAsync\<close>

text \<open>
  The retry is \<open>this.getDeviceActivityAsync(lock, retryCount)\<close>: the decremented
  counter is passed in the place of \<open>count\<close>, and \<open>retryCount\<close> is omitted.
\<close>

partial_function (option) getDeviceActivityAsync ::
  "Configuration \<Rightarrow> env \<Rightarrow> Lock \<Rightarrow> int \<Rightarrow> int option \<Rightarrow> state \<Rightarrow>
     ((error + DeviceActivity list) \<times> state) option" where
  "getDeviceActivityAsync cfg env lock count retryCount s =
     (let retryCount = orDefault retryCount (maximumApiRetry cfg) in
      case getAccessTokenAsync cfg env None s of
        (Inl e, s1) \<Rightarrow> Some (Inl e, s1)
      | (Inr token, s1) \<Rightarrow>
          (let req = GetDeviceActivity (lock_id lock) count token;
               reply = get_deviceactivity env (sent s1) req;
               s2 = send env req s1
           in case reply of
                Inr response \<Rightarrow> Some (Inr (result response), s2)
              | Inl e \<Rightarrow>
                  (let retryCount = retryCount - 1 in
                   if retryCount > 0
                   then getDeviceActivityAsync cfg env lock retryCount None
                          (delay (apiRetryInterval cfg) s2)
                   else Some (Inl e, s2))))"

declare getDeviceActivityAsync.simps [code]

text \<open>\<open>activities[0] || null\<close>: an activity record is an object, hence truthy.\<close>

definition getLatestDeviceActivityAsync ::
  "Configuration \<Rightarrow> env \<Rightarrow> Lock \<Rightarrow> int option \<Rightarrow> state \<Rightarrow>
     ((error + DeviceActivity option) \<times> state) option" where
  "getLatestDeviceActivityAsync cfg env lock retryCount s =
     (case getDeviceActivityAsync cfg env lock 1 retryCount s of
        None \<Rightarrow> None
      | Some (Inl e, s1) \<Rightarrow> Some (Inl e, s1)
      | Some (Inr activities, s1) \<Rightarrow>
          Some (Inr (case activities of [] \<Rightarrow> None | a # _ \<Rightarrow> Some a), s1))"

section \<open>Vocabulary of the properties\<close>

subsection \<open>Counting attempts\<close>

text \<open>The endpoint a request goes to; an attempt of an operation is one request to its endpoint.\<close>

datatype route = Token | Locks | LocksSync | LockSyncOf | Close | Open | PullSpring | Poll | Activity

fun route_of :: "request \<Rightarrow> route" where
  "route_of (PostToken u p) = Token"
| "route_of (GetLocks t) = Locks"
| "route_of (GetLocksSync t) = LocksSync"
| "route_of (GetLockSync i t) = LockSyncOf"
| "route_of (PostClose i t) = Close"
| "route_of (PostOpen i t) = Open"
| "route_of (PostPullSpring i t) = PullSpring"
| "route_of (GetOperation i t) = Poll"
| "route_of (GetDeviceActivity i n t) = Activity"

definition attempts :: "route \<Rightarrow> request list \<Rightarrow> nat" where
  "attempts k h = length (filter (\<lambda>req. route_of req = k) h)"

text \<open>The token endpoint answers every request.\<close>

definition token_ok :: "env \<Rightarrow> bool" where
  "token_ok env \<longleftrightarrow> (\<forall>h req. \<not> isl (post_token env h req))"

text \<open>
  An endpoint that rejects every request while fewer than \<open>N\<close> requests were sent to
  it, and answers the next one with \<open>response\<close>.
\<close>

definition failsUntil ::
  "route \<Rightarrow> (request list \<Rightarrow> request \<Rightarrow> error + 'r) \<Rightarrow> nat \<Rightarrow> 'r \<Rightarrow> bool" where
  "failsUntil k endpoint N response \<longleftrightarrow>
     (\<forall>h req. route_of req = k \<longrightarrow>
        (attempts k h < N \<longrightarrow> isl (endpoint h req)) \<and>
        (attempts k h = N \<longrightarrow> endpoint h req = Inr response))"

subsection \<open>Polling\<close>

text \<open>
  After the history \<open>h\<close>, the command \<open>post\<close> is accepted as not completed, the first
  poll reports not completed, and the second poll reports \<open>Completed\<close>. Each poll asks
  for the operation id of the response before it.
\<close>

definition pendingPendingCompleted :: "env \<Rightarrow> request list \<Rightarrow> request \<Rightarrow> string \<Rightarrow> bool" where
  "pendingPendingCompleted env h post token \<longleftrightarrow>
     (case operation env h post of
        Inl e \<Rightarrow> False
      | Inr r0 \<Rightarrow>
          status (result r0) \<noteq> Completed \<and>
          (let poll1 = GetOperation (operationId (result r0)) token in
           case operation env (h @ [post]) poll1 of
             Inl e \<Rightarrow> False
           | Inr r1 \<Rightarrow>
               status (result r1) \<noteq> Completed \<and>
               (case operation env (h @ [post, poll1])
                       (GetOperation (operationId (result r1)) token) of
                  Inl e \<Rightarrow> False
                | Inr r2 \<Rightarrow> status (result r2) = Completed)))"

text \<open>Every poll is answered, and never with \<open>Completed\<close>.\<close>

definition neverCompleted :: "env \<Rightarrow> bool" where
  "neverCompleted env \<longleftrightarrow>
     (\<forall>h req. route_of req = Poll \<longrightarrow>
        (case operation env h req of
           Inl e \<Rightarrow> False
         | Inr response \<Rightarrow> status (result response) \<noteq> Completed))"

text \<open>
  Among the requests \<open>new\<close>, sent one after the other after the history \<open>h\<close>, a command
  or a poll was answered with status \<open>Completed\<close>.
\<close>

fun completedIn :: "env \<Rightarrow> request list \<Rightarrow> request list \<Rightarrow> bool" where
  "completedIn env h [] = False"
| "completedIn env h (req # new) =
     ((route_of req \<in> {Close, Open, PullSpring, Poll} \<and>
       (case operation env h req of
          Inl e \<Rightarrow> False
        | Inr response \<Rightarrow> status (result response) = Completed)) \<or>
      completedIn env (h @ [req]) new)"

subsection \<open>The token fields\<close>

text \<open>
  \<open>only_token_refresh cfg env s s'\<close>: the state \<open>s'\<close> is reached from \<open>s\<close> by steps
  each of which is an HTTP request, a timed wait, or a call of \<open>getAccessTokenAsync\<close>.
  The first two leave \<open>accessToken\<close> and \<open>expirationDateTime\<close> as they are.
\<close>

inductive only_token_refresh :: "Configuration \<Rightarrow> env \<Rightarrow> state \<Rightarrow> state \<Rightarrow> bool"
  for cfg :: Configuration and env :: env where
  same: "only_token_refresh cfg env s s"
| request: "only_token_refresh cfg env s s1 \<Longrightarrow> only_token_refresh cfg env s (send env req s1)"
| wait: "only_token_refresh cfg env s s1 \<Longrightarrow> only_token_refresh cfg env s (delay ms s1)"
| refresh: "only_token_refresh cfg env s s1 \<Longrightarrow>
     only_token_refresh cfg env s (snd (getAccessTokenAsync cfg env retryCount s1))"

text \<open>\<open>accessToken\<close> is \<open>null\<close> if and only if \<open>expirationDateTime\<close> is.\<close>

definition token_invariant :: "state \<Rightarrow> bool" where
  "token_invariant s \<longleftrightarrow> (accessToken s = None \<longleftrightarrow> expirationDateTime s = None)"

section \<open>The retry scheme\<close>

text \<open>
  Every operation but \<open>getDeviceActivityAsync\<close> is an instance of one scheme: get the
  token, run the \<open>try\<close> block, and on an exception count down and start again. The
  scheme is not in the source; each operation is shown to be equal to its instance, and
  what holds of the scheme is carried over.
\<close>

definition get_attempt ::
  "(request list \<Rightarrow> request \<Rightarrow> error + 'r Response) \<Rightarrow> env \<Rightarrow> request \<Rightarrow> state \<Rightarrow>
     ((error + 'r) \<times> state) option" where
  "get_attempt endpoint env req s =
     (case endpoint (sent s) req of
        Inr response \<Rightarrow> Some (Inr (result response), send env req s)
      | Inl e \<Rightarrow> Some (Inl e, send env req s))"

definition command_attempt ::
  "env \<Rightarrow> request \<Rightarrow> string \<Rightarrow> state \<Rightarrow> ((error + unit) \<times> state) option" where
  "command_attempt env req token s =
     (case operation env (sent s) req of
        Inl e \<Rightarrow> Some (Inl e, send env req s)
      | Inr response \<Rightarrow> waitForCompletion env token response (send env req s))"

function retry ::
  "Configuration \<Rightarrow> env \<Rightarrow> (string \<Rightarrow> state \<Rightarrow> ((error + 'a) \<times> state) option) \<Rightarrow> int \<Rightarrow>
     state \<Rightarrow> ((error + 'a) \<times> state) option" where
  "retry cfg env attempt n s =
     (case getAccessTokenAsync cfg env None s of
        (Inl e, s1) \<Rightarrow> Some (Inl e, s1)
      | (Inr token, s1) \<Rightarrow>
          (case attempt token s1 of
             None \<Rightarrow> None
           | Some (Inr v, s2) \<Rightarrow> Some (Inr v, s2)
           | Some (Inl e, s2) \<Rightarrow>
               if n - 1 > 0
               then retry cfg env attempt (n - 1) (delay (apiRetryInterval cfg) s2)
               else Some (Inl e, s2)))"
  by pat_completeness auto
termination
  by (relation "measure (\<lambda>(cfg, env, attempt, n, s). nat n)") auto

declare retry.simps [simp del]

section \<open>Fixtures\<close>

text \<open>Concrete configurations, locks and servers, on which the theorems are instantiated.\<close>

definition demo_config :: Configuration where
  "demo_config = \<lparr>emailAddress = ''user@example.org'', password = ''secret'',
     maximumTokenRetry = 3, tokenRetryInterval = 500,
     maximumApiRetry = 3, apiRetryInterval = 1000\<rparr>"

definition demo_lock :: Lock where
  "demo_lock = \<lparr>lock_id = 7, lock_name = ''door''\<rparr>"

definition ok :: "'r \<Rightarrow> 'r Response" where
  "ok r = \<lparr>success = True, errorMessages = [], statusCode = 200, result = r\<rparr>"

definition offline :: env where
  "offline = \<lparr>post_token = (\<lambda>h req. Inl (Error ''offline'')),
     get_locks = (\<lambda>h req. Inl (Error ''offline'')),
     get_locks_sync = (\<lambda>h req. Inl (Error ''offline'')),
     get_lock_sync = (\<lambda>h req. Inl (Error ''offline'')),
     operation = (\<lambda>h req. Inl (Error ''offline'')),
     get_deviceactivity = (\<lambda>h req. Inl (Error ''offline'')),
     latency = (\<lambda>h req. 5)\<rparr>"

definition online :: env where
  "online = offline\<lparr>post_token := (\<lambda>h req. Inr \<lparr>access_token = ''tok'', expires_in = 3600\<rparr>)\<rparr>"

definition house_locks :: "Lock list" where
  "house_locks = [\<lparr>lock_id = 1, lock_name = ''front''\<rparr>, \<lparr>lock_id = 2, lock_name = ''back''\<rparr>,
     \<lparr>lock_id = 3, lock_name = ''back''\<rparr>]"

definition house :: env where
  "house = online\<lparr>get_locks := (\<lambda>h req. Inr (ok house_locks))\<rparr>"

definition pending :: OperationResponse where
  "pending = ok \<lparr>operationId = ''op'', status = Pending\<rparr>"

definition completed :: OperationResponse where
  "completed = ok \<lparr>operationId = ''op'', status = Completed\<rparr>"

definition slow :: env where
  "slow = online\<lparr>operation := (\<lambda>h req. Inr (if attempts Poll h < 1 then pending else completed))\<rparr>"

definition stuck :: env where
  "stuck = online\<lparr>operation := (\<lambda>h req. Inr pending)\<rparr>"

definition flaky :: "route \<Rightarrow> env" where
  "flaky k = online
     \<lparr>get_locks := (\<lambda>h req. if attempts Locks h < 1 then Inl (Error ''busy'') else Inr (ok house_locks)),
      get_locks_sync := (\<lambda>h req. if attempts LocksSync h < 1 then Inl (Error ''busy'')
         else Inr (ok [\<lparr>sync_id = 1\<rparr>])),
      get_lock_sync := (\<lambda>h req. if attempts LockSyncOf h < 1 then Inl (Error ''busy'')
         else Inr (ok \<lparr>sync_id = 1\<rparr>)),
      operation := (\<lambda>h req.
         if route_of req = Poll
         then (if attempts k h \<le> 1 then Inl (Error ''busy'') else Inr completed)
         else (if attempts k h < 1 then Inl (Error ''busy'') else Inr pending)),
      get_deviceactivity := (\<lambda>h req. if attempts Activity h < 1 then Inl (Error ''busy'')
         else Inr (ok []))\<rparr>"

definition empty_token :: env where
  "empty_token = offline\<lparr>post_token := (\<lambda>h req.
     if h = [] then Inr \<lparr>access_token = [], expires_in = 3600\<rparr> else Inl (Error ''offline''))\<rparr>"

definition no_retry_config :: Configuration where
  "no_retry_config = demo_config\<lparr>maximumTokenRetry := 0, maximumApiRetry := 0\<rparr>"

definition busy_until :: "nat \<Rightarrow> env" where
  "busy_until n = online
     \<lparr>get_locks := (\<lambda>h req. if attempts Locks h < n then Inl (Error ''busy'')
         else Inr (ok house_locks)),
      get_deviceactivity := (\<lambda>h req. if attempts Activity h < n then Inl (Error ''busy'')
         else Inr (ok []))\<rparr>"

definition single_try_config :: Configuration where
  "single_try_config = demo_config\<lparr>maximumApiRetry := 1\<rparr>"

text \<open>A service that reports every command as completed at once.\<close>

definition prompt :: env where
  "prompt = online\<lparr>operation := (\<lambda>h req. Inr completed)\<rparr>"

text \<open>A configuration whose two retry counts differ.\<close>

definition uneven_config :: Configuration where
  "uneven_config = demo_config\<lparr>maximumTokenRetry := 2, maximumApiRetry := 4\<rparr>"

section \<open>Basic facts\<close>

lemma send_fields [simp]:
  "accessToken (send env req s) = accessToken s"
  "expirationDateTime (send env req s) = expirationDateTime s"
  "sent (send env req s) = sent s @ [req]"
  "clock (send env req s) = clock s + int (latency env (sent s) req)"
  by (simp_all add: send_def)

lemma delay_fields [simp]:
  "accessToken (delay ms s) = accessToken s"
  "expirationDateTime (delay ms s) = expirationDateTime s"
  "sent (delay ms s) = sent s"
  "clock (delay ms s) = clock s + max 0 ms"
  by (simp_all add: delay_def)

lemma expire_fields [simp]: "sent (expire s) = sent s" "clock (expire s) = clock s"
  by (simp_all add: expire_def split: option.splits)

lemma attempts_simps [simp]:
  "attempts k [] = 0"
  "attempts k (h @ h') = attempts k h + attempts k h'"
  "attempts k (req # h) = (if route_of req = k then Suc (attempts k h) else attempts k h)"
  by (simp_all add: attempts_def)

subsection \<open>getAccessTokenAsync, one step at a time\<close>

lemma token_cached:
  "cached (accessToken (expire s)) = Some token \<Longrightarrow>
   getAccessTokenAsync cfg env retryCount s = (Inr token, expire s)"
  by (simp add: getAccessTokenAsync.simps [of cfg env retryCount s])

lemma token_fetched:
  "cached (accessToken (expire s)) = None \<Longrightarrow>
   post_token env (sent s) (PostToken (emailAddress cfg) (password cfg)) = Inr response \<Longrightarrow>
   getAccessTokenAsync cfg env retryCount s =
     (Inr (access_token response),
      (send env (PostToken (emailAddress cfg) (password cfg)) (expire s))
        \<lparr>accessToken := Some (access_token response),
         expirationDateTime := Some (clock (expire s) +
             int (latency env (sent s) (PostToken (emailAddress cfg) (password cfg))) +
             expires_in response * 1000)\<rparr>)"
  by (simp add: getAccessTokenAsync.simps [of cfg env retryCount s] Let_def)

lemma token_retried:
  "cached (accessToken (expire s)) = None \<Longrightarrow>
   post_token env (sent s) (PostToken (emailAddress cfg) (password cfg)) = Inl e \<Longrightarrow>
   orDefault retryCount (maximumTokenRetry cfg) - 1 > 0 \<Longrightarrow>
   getAccessTokenAsync cfg env retryCount s =
     getAccessTokenAsync cfg env (Some (orDefault retryCount (maximumTokenRetry cfg) - 1))
       (delay (tokenRetryInterval cfg)
          (send env (PostToken (emailAddress cfg) (password cfg)) (expire s)))"
  by (simp add: getAccessTokenAsync.simps [of cfg env retryCount s] Let_def)

lemma token_thrown:
  "cached (accessToken (expire s)) = None \<Longrightarrow>
   post_token env (sent s) (PostToken (emailAddress cfg) (password cfg)) = Inl e \<Longrightarrow>
   \<not> orDefault retryCount (maximumTokenRetry cfg) - 1 > 0 \<Longrightarrow>
   getAccessTokenAsync cfg env retryCount s =
     (Inl e, send env (PostToken (emailAddress cfg) (password cfg)) (expire s))"
  by (simp add: getAccessTokenAsync.simps [of cfg env retryCount s] Let_def)

text \<open>The induction that follows the retries of \<open>getAccessTokenAsync\<close>.\<close>

lemma token_induct [case_names cached fetched retried thrown]:
  assumes "\<And>retryCount s token. cached (accessToken (expire s)) = Some token \<Longrightarrow>
             P retryCount s (Inr token, expire s)"
    and "\<And>retryCount s response. cached (accessToken (expire s)) = None \<Longrightarrow>
           post_token env (sent s) (PostToken (emailAddress cfg) (password cfg)) = Inr response \<Longrightarrow>
           P retryCount s (getAccessTokenAsync cfg env retryCount s)"
    and "\<And>retryCount s e. cached (accessToken (expire s)) = None \<Longrightarrow>
           post_token env (sent s) (PostToken (emailAddress cfg) (password cfg)) = Inl e \<Longrightarrow>
           orDefault retryCount (maximumTokenRetry cfg) - 1 > 0 \<Longrightarrow>
           P (Some (orDefault retryCount (maximumTokenRetry cfg) - 1))
             (delay (tokenRetryInterval cfg)
               (send env (PostToken (emailAddress cfg) (password cfg)) (expire s)))
             (getAccessTokenAsync cfg env retryCount s) \<Longrightarrow>
           P retryCount s (getAccessTokenAsync cfg env retryCount s)"
    and "\<And>retryCount s e. cached (accessToken (expire s)) = None \<Longrightarrow>
           post_token env (sent s) (PostToken (emailAddress cfg) (password cfg)) = Inl e \<Longrightarrow>
           \<not> orDefault retryCount (maximumTokenRetry cfg) - 1 > 0 \<Longrightarrow>
           P retryCount s (Inl e, send env (PostToken (emailAddress cfg) (password cfg)) (expire s))"
  shows "P retryCount s (getAccessTokenAsync cfg env retryCount s)"
proof (induction "nat (orDefault retryCount (maximumTokenRetry cfg))"
    arbitrary: retryCount s rule: less_induct)
  case less
  let ?req = "PostToken (emailAddress cfg) (password cfg)"
  let ?n = "orDefault retryCount (maximumTokenRetry cfg) - 1"
  show ?case
  proof (cases "cached (accessToken (expire s))")
    case (Some token)
    with assms(1) show ?thesis by (simp add: token_cached)
  next
    case None
    show ?thesis
    proof (cases "post_token env (sent s) ?req")
      case (Inr response)
      with None show ?thesis by (rule assms(2))
    next
      case (Inl e)
      show ?thesis
      proof (cases "?n > 0")
        case True
        then have "nat (orDefault (Some ?n) (maximumTokenRetry cfg)) <
            nat (orDefault retryCount (maximumTokenRetry cfg))" by simp
        from less [OF this, of "delay (tokenRetryInterval cfg) (send env ?req (expire s))"]
        show ?thesis using assms(3) [OF None Inl True] token_retried [OF None Inl True] by simp
      next
        case False
        with assms(4) [OF None Inl False] show ?thesis using token_thrown [OF None Inl False]
          by simp
      qed
    qed
  qed
qed

lemma getAccessTokenAsync_invariant:
  "token_invariant s \<Longrightarrow> token_invariant (snd (getAccessTokenAsync cfg env retryCount s))"
proof (induction retryCount s rule: token_induct [where cfg = cfg and env = env])
  case (cached retryCount s token)
  then show ?case by (simp add: token_invariant_def expire_def split: option.splits)
next
  case (fetched retryCount s response)
  then show ?case by (simp add: token_fetched token_invariant_def)
next
  case (retried retryCount s e)
  then show ?case by (simp add: token_invariant_def expire_def split: option.splits)
next
  case (thrown retryCount s e)
  then show ?case by (simp add: token_invariant_def expire_def split: option.splits)
qed

lemma getAccessTokenAsync_sent:
  "\<exists>new. sent (snd (getAccessTokenAsync cfg env retryCount s)) = sent s @ new \<and>
      (\<forall>req \<in> set new. route_of req = Token)"
proof (induction retryCount s rule: token_induct [where cfg = cfg and env = env])
  case (fetched retryCount s response)
  then show ?case by (simp add: token_fetched)
next
  case (retried retryCount s e)
  then show ?case by auto
qed simp_all

lemma getAccessTokenAsync_thrown:
  "getAccessTokenAsync cfg env retryCount s = (Inl e, s') \<Longrightarrow> cached (accessToken s') = None"
proof (induction retryCount s rule: token_induct [where cfg = cfg and env = env])
  case (fetched retryCount s response)
  then show ?case by (simp add: token_fetched)
qed auto

lemma token_ok_succeeds:
  assumes "token_ok env"
  shows "\<exists>token s1. getAccessTokenAsync cfg env retryCount s = (Inr token, s1)"
proof (cases "cached (accessToken (expire s))")
  case (Some token)
  then show ?thesis by (simp add: token_cached)
next
  case None
  from assms have "\<not> isl (post_token env (sent s) (PostToken (emailAddress cfg) (password cfg)))"
    by (simp add: token_ok_def)
  then obtain response
    where "post_token env (sent s) (PostToken (emailAddress cfg) (password cfg)) = Inr response"
    by (cases "post_token env (sent s) (PostToken (emailAddress cfg) (password cfg))") auto
  with None show ?thesis by (simp add: token_fetched)
qed

lemma getAccessTokenAsync_attempts:
  "k \<noteq> Token \<Longrightarrow>
   attempts k (sent (snd (getAccessTokenAsync cfg env retryCount s))) = attempts k (sent s)"
proof -
  assume k: "k \<noteq> Token"
  obtain new where "sent (snd (getAccessTokenAsync cfg env retryCount s)) = sent s @ new"
    and "\<forall>req \<in> set new. route_of req = Token"
    using getAccessTokenAsync_sent by blast
  then show ?thesis using k by (simp add: attempts_def)
qed

subsection \<open>The polling loop\<close>

lemma wait_done:
  "status (result response) = Completed \<Longrightarrow>
   waitForCompletion env token response s = Some (Inr (), s)"
  by (subst waitForCompletion.simps) simp

lemma wait_rejected:
  "status (result response) \<noteq> Completed \<Longrightarrow>
   operation env (sent s) (GetOperation (operationId (result response)) token) = Inl e \<Longrightarrow>
   waitForCompletion env token response s =
     Some (Inl e, send env (GetOperation (operationId (result response)) token) (delay 1000 s))"
  by (subst waitForCompletion.simps) simp

lemma wait_again:
  "status (result response) \<noteq> Completed \<Longrightarrow>
   operation env (sent s) (GetOperation (operationId (result response)) token) = Inr response' \<Longrightarrow>
   waitForCompletion env token response s =
     waitForCompletion env token response'
       (send env (GetOperation (operationId (result response)) token) (delay 1000 s))"
  by (subst waitForCompletion.simps) simp

lemma completedIn_append:
  "completedIn env h (new @ new') \<longleftrightarrow> completedIn env h new \<or> completedIn env (h @ new) new'"
  by (induction new arbitrary: h) auto

lemma wait_returns_aux:
  assumes "waitForCompletion env token response s = Some y"
  shows "accessToken (snd y) = accessToken s \<and> expirationDateTime (snd y) = expirationDateTime s \<and>
   (\<exists>new. sent (snd y) = sent s @ new \<and> (\<forall>req \<in> set new. route_of req = Poll) \<and>
      (fst y = Inr () \<longrightarrow> status (result response) = Completed \<or> completedIn env (sent s) new))"
proof (rule waitForCompletion.raw_induct [OF _ assms])
  fix wait env token and response :: OperationResponse and s y
  assume IH: "\<And>env token response s y. wait env token response s = Some y \<Longrightarrow>
      accessToken (snd y) = accessToken s \<and> expirationDateTime (snd y) = expirationDateTime s \<and>
      (\<exists>new. sent (snd y) = sent s @ new \<and> (\<forall>req \<in> set new. route_of req = Poll) \<and>
         (fst y = Inr () \<longrightarrow> status (result response) = Completed \<or>
            completedIn env (sent s) new))"
    and body: "(if status (result response) \<noteq> Completed
      then let s1 = delay 1000 s;
               req = GetOperation (operationId (result response)) token;
               reply = operation env (sent s1) req; s2 = send env req s1
           in case reply of Inl e \<Rightarrow> Some (Inl e, s2)
              | Inr response' \<Rightarrow> wait env token response' s2
      else Some (Inr (), s)) = Some y"
  show "accessToken (snd y) = accessToken s \<and> expirationDateTime (snd y) = expirationDateTime s \<and>
      (\<exists>new. sent (snd y) = sent s @ new \<and> (\<forall>req \<in> set new. route_of req = Poll) \<and>
         (fst y = Inr () \<longrightarrow> status (result response) = Completed \<or>
            completedIn env (sent s) new))"
  proof (cases "status (result response) = Completed")
    case True
    with body show ?thesis by auto
  next
    case False
    let ?req = "GetOperation (operationId (result response)) token"
    show ?thesis
    proof (cases "operation env (sent s) ?req")
      case (Inl e)
      with False body show ?thesis by (auto simp: Let_def)
    next
      case (Inr response')
      with False body have "wait env token response' (send env ?req (delay 1000 s)) = Some y"
        by (simp add: Let_def)
      from IH [OF this] obtain new where
        f: "accessToken (snd y) = accessToken s" "expirationDateTime (snd y) = expirationDateTime s"
        and n: "sent (snd y) = sent s @ ?req # new" "\<forall>req \<in> set new. route_of req = Poll"
        and c: "fst y = Inr () \<longrightarrow> status (result response') = Completed \<or>
                 completedIn env (sent s @ [?req]) new"
        by auto
      have "fst y = Inr () \<longrightarrow> completedIn env (sent s) (?req # new)"
        using c Inr by auto
      with f n show ?thesis by (intro conjI exI [of _ "?req # new"]) auto
    qed
  qed
qed

lemma wait_returns:
  assumes "waitForCompletion env token response s = Some (r, s')"
  shows "accessToken s' = accessToken s" and "expirationDateTime s' = expirationDateTime s"
    and "\<exists>new. sent s' = sent s @ new \<and> (\<forall>req \<in> set new. route_of req = Poll) \<and>
      (r = Inr () \<longrightarrow> status (result response) = Completed \<or> completedIn env (sent s) new)"
  using wait_returns_aux [OF assms] by simp_all

subsection \<open>The retry scheme, one step at a time\<close>

lemma retry_no_token:
  "getAccessTokenAsync cfg env None s = (Inl e, s1) \<Longrightarrow>
   retry cfg env attempt n s = Some (Inl e, s1)"
  by (simp add: retry.simps [of cfg env attempt n s])

lemma retry_diverges:
  "getAccessTokenAsync cfg env None s = (Inr token, s1) \<Longrightarrow> attempt token s1 = None \<Longrightarrow>
   retry cfg env attempt n s = None"
  by (simp add: retry.simps [of cfg env attempt n s])

lemma retry_done:
  "getAccessTokenAsync cfg env None s = (Inr token, s1) \<Longrightarrow>
   attempt token s1 = Some (Inr v, s2) \<Longrightarrow>
   retry cfg env attempt n s = Some (Inr v, s2)"
  by (simp add: retry.simps [of cfg env attempt n s])

lemma retry_again:
  "getAccessTokenAsync cfg env None s = (Inr token, s1) \<Longrightarrow>
   attempt token s1 = Some (Inl e, s2) \<Longrightarrow> n - 1 > 0 \<Longrightarrow>
   retry cfg env attempt n s = retry cfg env attempt (n - 1) (delay (apiRetryInterval cfg) s2)"
  by (simp add: retry.simps [of cfg env attempt n s])

lemma retry_gave_up:
  "getAccessTokenAsync cfg env None s = (Inr token, s1) \<Longrightarrow>
   attempt token s1 = Some (Inl e, s2) \<Longrightarrow> \<not> n - 1 > 0 \<Longrightarrow>
   retry cfg env attempt n s = Some (Inl e, s2)"
  by (simp add: retry.simps [of cfg env attempt n s])

text \<open>Induction over a run of the scheme that returns.\<close>

lemma retry_run [consumes 1, case_names no_token succeeded gave_up again]:
  assumes run: "retry cfg env attempt n s = Some (r, s')"
    and no_token: "\<And>n s e s1. getAccessTokenAsync cfg env None s = (Inl e, s1) \<Longrightarrow>
        P n s (Inl e) s1"
    and succeeded: "\<And>n s token s1 v s2. getAccessTokenAsync cfg env None s = (Inr token, s1) \<Longrightarrow>
        attempt token s1 = Some (Inr v, s2) \<Longrightarrow> P n s (Inr v) s2"
    and gave_up: "\<And>n s token s1 e s2. getAccessTokenAsync cfg env None s = (Inr token, s1) \<Longrightarrow>
        attempt token s1 = Some (Inl e, s2) \<Longrightarrow> \<not> n - 1 > 0 \<Longrightarrow> P n s (Inl e) s2"
    and again: "\<And>n s token s1 e s2 r s'.
        getAccessTokenAsync cfg env None s = (Inr token, s1) \<Longrightarrow>
        attempt token s1 = Some (Inl e, s2) \<Longrightarrow> n - 1 > 0 \<Longrightarrow>
        retry cfg env attempt (n - 1) (delay (apiRetryInterval cfg) s2) = Some (r, s') \<Longrightarrow>
        P (n - 1) (delay (apiRetryInterval cfg) s2) r s' \<Longrightarrow> P n s r s'"
  shows "P n s r s'"
  using run
proof (induction "nat n" arbitrary: n s rule: less_induct)
  case less
  obtain r1 s1 where t: "getAccessTokenAsync cfg env None s = (r1, s1)" by force
  show ?case
  proof (cases r1)
    case (Inl e)
    with t less.prems no_token [of s e s1 n] show ?thesis by (simp add: retry_no_token)
  next
    case (Inr token)
    note t = t [unfolded Inr]
    show ?thesis
    proof (cases "attempt token s1")
      case None
      with t less.prems show ?thesis by (simp add: retry_diverges)
    next
      case (Some p)
      obtain r2 s2 where p: "attempt token s1 = Some (r2, s2)" using Some by (cases p) simp
      show ?thesis
      proof (cases r2)
        case (Inr v)
        with t p less.prems succeeded [of s token s1 v s2 n] show ?thesis by (simp add: retry_done)
      next
        case (Inl e)
        note p = p [unfolded Inl]
        show ?thesis
        proof (cases "n - 1 > 0")
          case True
          from less.prems have run': "retry cfg env attempt (n - 1)
              (delay (apiRetryInterval cfg) s2) = Some (r, s')"
            by (simp add: retry_again [where attempt = attempt, OF t p True])
          have "nat (n - 1) < nat n" using True by simp
          from less.hyps [OF this run'] show ?thesis by (rule again [OF t p True run'])
        next
          case False
          with t p less.prems gave_up [of s token s1 e s2 n] show ?thesis
            by (simp add: retry_gave_up)
        qed
      qed
    qed
  qed
qed

lemma only_token_refresh_trans:
  "only_token_refresh cfg env s1 s2 \<Longrightarrow> only_token_refresh cfg env s s1 \<Longrightarrow>
   only_token_refresh cfg env s s2"
  by (induction rule: only_token_refresh.induct) (auto intro: only_token_refresh.intros)

lemma only_token_refresh_invariant:
  "only_token_refresh cfg env s s' \<Longrightarrow> token_invariant s \<Longrightarrow> token_invariant s'"
proof (induction rule: only_token_refresh.induct)
  case (refresh s1 retryCount)
  then show ?case by (simp add: getAccessTokenAsync_invariant)
qed (simp_all add: token_invariant_def)

lemma token_step:
  "getAccessTokenAsync cfg env retryCount s = (r, s1) \<Longrightarrow> only_token_refresh cfg env s s1"
  by (metis only_token_refresh.refresh only_token_refresh.same snd_conv)

lemma retry_only_token_refresh:
  assumes "retry cfg env attempt n s = Some (r, s')"
    and steps: "\<And>token s1 r s2. attempt token s1 = Some (r, s2) \<Longrightarrow>
      only_token_refresh cfg env s1 s2"
  shows "only_token_refresh cfg env s s'"
  using assms(1)
proof (induction rule: retry_run)
  case (no_token n s e s1)
  then show ?case by (rule token_step)
next
  case (succeeded n s token s1 v s2)
  from steps [OF succeeded(2)] token_step [OF succeeded(1)] show ?case
    by (rule only_token_refresh_trans)
next
  case (gave_up n s token s1 e s2)
  from steps [OF gave_up(2)] token_step [OF gave_up(1)] show ?case
    by (rule only_token_refresh_trans)
next
  case (again n s token s1 e s2 r s')
  from steps [OF again(2)] token_step [OF again(1)]
  have "only_token_refresh cfg env s s2" by (rule only_token_refresh_trans)
  then have "only_token_refresh cfg env s (delay (apiRetryInterval cfg) s2)"
    by (rule only_token_refresh.wait)
  with again(5) show ?case by (rule only_token_refresh_trans)
qed

subsection \<open>Runs on the fixtures\<close>

lemma house_locks_run:
  "getLocksAsync demo_config house None (initial 0) =
     (Inr house_locks,
      \<lparr>expirationDateTime = Some 3600005, accessToken = Some ''tok'', clock = 10,
       sent = [PostToken ''user@example.org'' ''secret'', GetLocks ''tok'']\<rparr>)"
  by (simp add: getLocksAsync.simps getAccessTokenAsync.simps expire_def initial_def house_def online_def offline_def demo_config_def ok_def send_def Let_def)

subsection \<open>Every operation is an instance of the scheme\<close>

lemma getLocksAsync_retry:
  "orDefault retryCount (maximumApiRetry cfg) = n \<Longrightarrow>
   Some (getLocksAsync cfg env retryCount s) =
     retry cfg env (\<lambda>token. get_attempt (get_locks env) env (GetLocks token)) n s"
proof (induction cfg env "\<lambda>token. get_attempt (get_locks env) env (GetLocks token)" n s
    arbitrary: retryCount rule: retry.induct)
  case (1 cfg env n s)
  show ?case
    apply (subst getLocksAsync.simps)
    apply (subst retry.simps)
    using 1
    apply (auto simp: get_attempt_def Let_def split: prod.splits sum.splits)
    done
qed

lemma syncLocksAsync_retry:
  "orDefault retryCount (maximumApiRetry cfg) = n \<Longrightarrow>
   Some (syncLocksAsync cfg env retryCount s) =
     retry cfg env (\<lambda>token. get_attempt (get_locks_sync env) env (GetLocksSync token)) n s"
proof (induction cfg env "\<lambda>token. get_attempt (get_locks_sync env) env (GetLocksSync token)" n s
    arbitrary: retryCount rule: retry.induct)
  case (1 cfg env n s)
  show ?case
    apply (subst syncLocksAsync.simps)
    apply (subst retry.simps)
    using 1
    apply (auto simp: get_attempt_def Let_def split: prod.splits sum.splits)
    done
qed

lemma syncLockAsync_retry:
  "orDefault retryCount (maximumApiRetry cfg) = n \<Longrightarrow>
   Some (syncLockAsync cfg env id' retryCount s) =
     retry cfg env (\<lambda>token. get_attempt (get_lock_sync env) env (GetLockSync id' token)) n s"
proof (induction cfg env "\<lambda>token. get_attempt (get_lock_sync env) env (GetLockSync id' token)" n s
    arbitrary: retryCount rule: retry.induct)
  case (1 cfg env n s)
  show ?case
    apply (subst syncLockAsync.simps)
    apply (subst retry.simps)
    using 1
    apply (auto simp: get_attempt_def Let_def split: prod.splits sum.splits)
    done
qed

lemma closeAsync_retry:
  "orDefault retryCount (maximumApiRetry cfg) = n \<Longrightarrow>
   closeAsync cfg env lock retryCount s =
     retry cfg env (\<lambda>token. command_attempt env (PostClose (lock_id lock) token) token) n s"
proof (induction cfg env "\<lambda>token. command_attempt env (PostClose (lock_id lock) token) token" n s
    arbitrary: retryCount rule: retry.induct)
  case (1 cfg env n s)
  show ?case
    apply (subst closeAsync.simps)
    apply (subst retry.simps)
    using 1
    apply (auto simp: command_attempt_def Let_def split: prod.splits sum.splits option.splits)
    done
qed

lemma openAsync_retry:
  "orDefault retryCount (maximumApiRetry cfg) = n \<Longrightarrow>
   openAsync cfg env lock retryCount s =
     retry cfg env (\<lambda>token. command_attempt env (PostOpen (lock_id lock) token) token) n s"
proof (induction cfg env "\<lambda>token. command_attempt env (PostOpen (lock_id lock) token) token" n s
    arbitrary: retryCount rule: retry.induct)
  case (1 cfg env n s)
  show ?case
    apply (subst openAsync.simps)
    apply (subst retry.simps)
    using 1
    apply (auto simp: command_attempt_def Let_def split: prod.splits sum.splits option.splits)
    done
qed

lemma pullSpringAsync_retry:
  "orDefault retryCount (maximumApiRetry cfg) = n \<Longrightarrow>
   pullSpringAsync cfg env lock retryCount s =
     retry cfg env (\<lambda>token. command_attempt env (PostPullSpring (lock_id lock) token) token) n s"
proof (induction cfg env "\<lambda>token. command_attempt env (PostPullSpring (lock_id lock) token) token" n s
    arbitrary: retryCount rule: retry.induct)
  case (1 cfg env n s)
  show ?case
    apply (subst pullSpringAsync.simps)
    apply (subst retry.simps)
    using 1
    apply (auto simp: command_attempt_def Let_def split: prod.splits sum.splits option.splits)
    done
qed

subsection \<open>getDeviceActivityAsync, one step at a time\<close>

lemma activity_no_token:
  "getAccessTokenAsync cfg env None s = (Inl e, s1) \<Longrightarrow>
   getDeviceActivityAsync cfg env lock count retryCount s = Some (Inl e, s1)"
  by (subst getDeviceActivityAsync.simps) simp

lemma activity_done:
  "getAccessTokenAsync cfg env None s = (Inr token, s1) \<Longrightarrow>
   get_deviceactivity env (sent s1) (GetDeviceActivity (lock_id lock) count token) = Inr response \<Longrightarrow>
   getDeviceActivityAsync cfg env lock count retryCount s =
     Some (Inr (result response), send env (GetDeviceActivity (lock_id lock) count token) s1)"
  by (subst getDeviceActivityAsync.simps) simp

lemma activity_again:
  "getAccessTokenAsync cfg env None s = (Inr token, s1) \<Longrightarrow>
   get_deviceactivity env (sent s1) (GetDeviceActivity (lock_id lock) count token) = Inl e \<Longrightarrow>
   orDefault retryCount (maximumApiRetry cfg) - 1 > 0 \<Longrightarrow>
   getDeviceActivityAsync cfg env lock count retryCount s =
     getDeviceActivityAsync cfg env lock (orDefault retryCount (maximumApiRetry cfg) - 1) None
       (delay (apiRetryInterval cfg) (send env (GetDeviceActivity (lock_id lock) count token) s1))"
  by (subst getDeviceActivityAsync.simps) (simp add: Let_def)

lemma activity_gave_up:
  "getAccessTokenAsync cfg env None s = (Inr token, s1) \<Longrightarrow>
   get_deviceactivity env (sent s1) (GetDeviceActivity (lock_id lock) count token) = Inl e \<Longrightarrow>
   \<not> orDefault retryCount (maximumApiRetry cfg) - 1 > 0 \<Longrightarrow>
   getDeviceActivityAsync cfg env lock count retryCount s =
     Some (Inl e, send env (GetDeviceActivity (lock_id lock) count token) s1)"
  by (subst getDeviceActivityAsync.simps) (simp add: Let_def)

text \<open>Induction over a run of \<open>getDeviceActivityAsync\<close> that returns.\<close>

lemma activity_run [consumes 1, case_names no_token succeeded gave_up again]:
  assumes run: "getDeviceActivityAsync cfg env lock count retryCount s = Some (r, s')"
    and no_token: "\<And>count retryCount s e s1.
        getAccessTokenAsync cfg env None s = (Inl e, s1) \<Longrightarrow> P count retryCount s (Inl e) s1"
    and succeeded: "\<And>count retryCount s token s1 response.
        getAccessTokenAsync cfg env None s = (Inr token, s1) \<Longrightarrow>
        get_deviceactivity env (sent s1) (GetDeviceActivity (lock_id lock) count token) =
          Inr response \<Longrightarrow>
        P count retryCount s (Inr (result response))
          (send env (GetDeviceActivity (lock_id lock) count token) s1)"
    and gave_up: "\<And>count retryCount s token s1 e.
        getAccessTokenAsync cfg env None s = (Inr token, s1) \<Longrightarrow>
        get_deviceactivity env (sent s1) (GetDeviceActivity (lock_id lock) count token) = Inl e \<Longrightarrow>
        \<not> orDefault retryCount (maximumApiRetry cfg) - 1 > 0 \<Longrightarrow>
        P count retryCount s (Inl e) (send env (GetDeviceActivity (lock_id lock) count token) s1)"
    and again: "\<And>count retryCount s token s1 e r s'.
        getAccessTokenAsync cfg env None s = (Inr token, s1) \<Longrightarrow>
        get_deviceactivity env (sent s1) (GetDeviceActivity (lock_id lock) count token) = Inl e \<Longrightarrow>
        orDefault retryCount (maximumApiRetry cfg) - 1 > 0 \<Longrightarrow>
        P (orDefault retryCount (maximumApiRetry cfg) - 1) None
          (delay (apiRetryInterval cfg)
            (send env (GetDeviceActivity (lock_id lock) count token) s1)) r s' \<Longrightarrow>
        P count retryCount s r s'"
  shows "P count retryCount s r s'"
proof -
  have "cfg' = cfg \<longrightarrow> env' = env \<longrightarrow> lock' = lock \<longrightarrow> P count retryCount s (fst y) (snd y)"
    if "getDeviceActivityAsync cfg' env' lock' count retryCount s = Some y"
    for cfg' env' lock' y
    using that
  proof (rule getDeviceActivityAsync.raw_induct [rotated])
    fix f cfg' env' lock' count retryCount s y
    assume IH: "\<And>cfg' env' lock' count retryCount s y.
        f cfg' env' lock' count retryCount s = Some y \<Longrightarrow>
        cfg' = cfg \<longrightarrow> env' = env \<longrightarrow> lock' = lock \<longrightarrow> P count retryCount s (fst y) (snd y)"
      and body: "(let retryCount = orDefault retryCount (maximumApiRetry cfg') in
          case getAccessTokenAsync cfg' env' None s of
            (Inl e, s1) \<Rightarrow> Some (Inl e, s1)
          | (Inr token, s1) \<Rightarrow>
              (let req = GetDeviceActivity (lock_id lock') count token;
                   reply = get_deviceactivity env' (sent s1) req;
                   s2 = send env' req s1
               in case reply of
                    Inl e \<Rightarrow>
                      (let retryCount = retryCount - 1 in
                       if 0 < retryCount
                       then f cfg' env' lock' retryCount None (delay (apiRetryInterval cfg') s2)
                       else Some (Inl e, s2))
                  | Inr response \<Rightarrow> Some (Inr (result response), s2))) = Some y"
    show "cfg' = cfg \<longrightarrow> env' = env \<longrightarrow> lock' = lock \<longrightarrow> P count retryCount s (fst y) (snd y)"
    proof (intro impI)
      assume eq: "cfg' = cfg" "env' = env" "lock' = lock"
      obtain r1 s1 where t: "getAccessTokenAsync cfg env None s = (r1, s1)" by force
      show "P count retryCount s (fst y) (snd y)"
      proof (cases r1)
        case (Inl e)
        with body t eq no_token [of s e s1 count retryCount] show ?thesis by auto
      next
        case (Inr token)
        note t = t [unfolded Inr]
        let ?req = "GetDeviceActivity (lock_id lock) count token"
        show ?thesis
        proof (cases "get_deviceactivity env (sent s1) ?req")
          case (Inr response)
          with body t eq succeeded [OF t Inr, of retryCount] show ?thesis by auto
        next
          case (Inl e)
          show ?thesis
          proof (cases "orDefault retryCount (maximumApiRetry cfg) - 1 > 0")
            case True
            with body t eq Inl
            have "f cfg env lock (orDefault retryCount (maximumApiRetry cfg) - 1) None
                (delay (apiRetryInterval cfg) (send env ?req s1)) = Some y"
              by (simp add: Let_def)
            from IH [OF this] have "P (orDefault retryCount (maximumApiRetry cfg) - 1) None
                (delay (apiRetryInterval cfg) (send env ?req s1)) (fst y) (snd y)" by simp
            then show ?thesis by (rule again [OF t Inl True])
          next
            case False
            with body t eq Inl gave_up [OF t Inl False] show ?thesis by (auto simp: Let_def)
          qed
        qed
      qed
    qed
  qed
  from this [OF run] show ?thesis by simp
qed

subsection \<open>What an attempt does to the state\<close>

lemma get_attempt_returns:
  assumes "get_attempt endpoint env req s1 = Some (r, s2)"
  shows "accessToken s2 = accessToken s1" and "expirationDateTime s2 = expirationDateTime s1"
    and "sent s2 = sent s1 @ [req]"
  using assms by (auto simp: get_attempt_def split: sum.splits)

lemma command_attempt_returns:
  assumes "command_attempt env req token s1 = Some (r, s2)"
  shows "accessToken s2 = accessToken s1" and "expirationDateTime s2 = expirationDateTime s1"
    and "\<exists>new. sent s2 = sent s1 @ req # new \<and> (\<forall>x \<in> set new. route_of x = Poll) \<and>
      (r = Inr () \<longrightarrow> route_of req \<in> {Close, Open, PullSpring, Poll} \<longrightarrow>
         completedIn env (sent s1) (req # new))"
proof -
  show "accessToken s2 = accessToken s1" and "expirationDateTime s2 = expirationDateTime s1"
    using assms by (auto simp: command_attempt_def split: sum.splits dest: wait_returns(1,2))
  show "\<exists>new. sent s2 = sent s1 @ req # new \<and> (\<forall>x \<in> set new. route_of x = Poll) \<and>
      (r = Inr () \<longrightarrow> route_of req \<in> {Close, Open, PullSpring, Poll} \<longrightarrow>
         completedIn env (sent s1) (req # new))"
  proof (cases "operation env (sent s1) req")
    case (Inl e)
    with assms show ?thesis by (auto simp: command_attempt_def)
  next
    case (Inr response)
    with assms have "waitForCompletion env token response (send env req s1) = Some (r, s2)"
      by (simp add: command_attempt_def)
    from wait_returns(3) [OF this] Inr show ?thesis by auto
  qed
qed

subsection \<open>The token fields change by token refresh only\<close>

lemma get_attempt_steps:
  "get_attempt endpoint env req s1 = Some (r, s2) \<Longrightarrow> only_token_refresh cfg env s1 s2"
  by (auto simp: get_attempt_def split: sum.splits
      intro: only_token_refresh.request only_token_refresh.same)

lemma wait_steps:
  assumes "waitForCompletion env token response s = Some y"
  shows "only_token_refresh cfg env s (snd y)"
proof (rule waitForCompletion.raw_induct [OF _ assms])
  fix wait env token and response :: OperationResponse and s y
  assume IH: "\<And>env token response s y. wait env token response s = Some y \<Longrightarrow>
      only_token_refresh cfg env s (snd y)"
    and body: "(if status (result response) \<noteq> Completed
      then let s1 = delay 1000 s;
               req = GetOperation (operationId (result response)) token;
               reply = operation env (sent s1) req; s2 = send env req s1
           in case reply of Inl e \<Rightarrow> Some (Inl e, s2)
              | Inr response' \<Rightarrow> wait env token response' s2
      else Some (Inr (), s)) = Some y"
  let ?req = "GetOperation (operationId (result response)) token"
  have polled: "only_token_refresh cfg env s (send env ?req (delay 1000 s))"
    by (intro only_token_refresh.request only_token_refresh.wait only_token_refresh.same)
  show "only_token_refresh cfg env s (snd y)"
  proof (cases "status (result response) = Completed")
    case True
    with body show ?thesis by (auto intro: only_token_refresh.same)
  next
    case False
    show ?thesis
    proof (cases "operation env (sent s) ?req")
      case (Inl e)
      with False body polled show ?thesis by (auto simp: Let_def)
    next
      case (Inr response')
      with False body have "wait env token response' (send env ?req (delay 1000 s)) = Some y"
        by (simp add: Let_def)
      from IH [OF this] polled show ?thesis by (rule only_token_refresh_trans)
    qed
  qed
qed

lemma command_attempt_steps:
  assumes "command_attempt env req token s1 = Some (r, s2)"
  shows "only_token_refresh cfg env s1 s2"
proof (cases "operation env (sent s1) req")
  case (Inl e)
  with assms show ?thesis
    by (auto simp: command_attempt_def intro: only_token_refresh.request only_token_refresh.same)
next
  case (Inr response)
  with assms have "waitForCompletion env token response (send env req s1) = Some (r, s2)"
    by (simp add: command_attempt_def)
  from wait_steps [OF this, of cfg]
    only_token_refresh.request [OF only_token_refresh.same, of cfg env s1 req]
  show ?thesis by (simp add: only_token_refresh_trans)
qed

lemma get_retry_frame:
  assumes "retry cfg env (\<lambda>token. get_attempt endpoint env (req token)) n s = Some y"
  shows "only_token_refresh cfg env s (snd y)"
proof -
  from assms have "retry cfg env (\<lambda>token. get_attempt endpoint env (req token)) n s =
      Some (fst y, snd y)" by simp
  then show ?thesis by (rule retry_only_token_refresh) (erule get_attempt_steps)
qed

lemma command_retry_frame:
  assumes "retry cfg env (\<lambda>token. command_attempt env (req token) token) n s = Some y"
  shows "only_token_refresh cfg env s (snd y)"
proof -
  from assms have "retry cfg env (\<lambda>token. command_attempt env (req token) token) n s =
      Some (fst y, snd y)" by simp
  then show ?thesis by (rule retry_only_token_refresh) (erule command_attempt_steps)
qed

lemma getLocksAsync_frame:
  "only_token_refresh cfg env s (snd (getLocksAsync cfg env retryCount s))"
  by (rule get_retry_frame [where req = GetLocks, OF getLocksAsync_retry [OF refl, symmetric]])

lemma syncLocksAsync_frame:
  "only_token_refresh cfg env s (snd (syncLocksAsync cfg env retryCount s))"
  by (rule get_retry_frame [where req = GetLocksSync,
        OF syncLocksAsync_retry [OF refl, symmetric]])

lemma syncLockAsync_frame:
  "only_token_refresh cfg env s (snd (syncLockAsync cfg env id' retryCount s))"
  by (rule get_retry_frame [where req = "GetLockSync id'",
        OF syncLockAsync_retry [OF refl, symmetric]])

lemma getLockByNameAsync_frame:
  "only_token_refresh cfg env s (snd (getLockByNameAsync cfg env name retryCount s))"
  using getLocksAsync_frame [of cfg env s retryCount]
  by (auto simp: getLockByNameAsync_def split: prod.splits sum.splits)

lemma closeAsync_frame:
  "closeAsync cfg env lock retryCount s = Some y \<Longrightarrow> only_token_refresh cfg env s (snd y)"
  unfolding closeAsync_retry [OF refl]
  by (rule command_retry_frame [where req = "PostClose (lock_id lock)"])

lemma openAsync_frame:
  "openAsync cfg env lock retryCount s = Some y \<Longrightarrow> only_token_refresh cfg env s (snd y)"
  unfolding openAsync_retry [OF refl]
  by (rule command_retry_frame [where req = "PostOpen (lock_id lock)"])

lemma pullSpringAsync_frame:
  "pullSpringAsync cfg env lock retryCount s = Some y \<Longrightarrow> only_token_refresh cfg env s (snd y)"
  unfolding pullSpringAsync_retry [OF refl]
  by (rule command_retry_frame [where req = "PostPullSpring (lock_id lock)"])

lemma getDeviceActivityAsync_frame:
  assumes "getDeviceActivityAsync cfg env lock count retryCount s = Some y"
  shows "only_token_refresh cfg env s (snd y)"
proof -
  obtain r s' where y: "y = (r, s')" by force
  from assms [unfolded y] have "only_token_refresh cfg env s s'"
  proof (induction rule: activity_run)
    case (no_token count retryCount s e s1)
    then show ?case by (rule token_step)
  next
    case (succeeded count retryCount s token s1 response)
    then show ?case by (auto dest!: token_step intro: only_token_refresh.request)
  next
    case (gave_up count retryCount s token s1 e)
    then show ?case by (auto dest!: token_step intro: only_token_refresh.request)
  next
    case (again count retryCount s token s1 e r s')
    have "only_token_refresh cfg env s
        (delay (apiRetryInterval cfg) (send env (GetDeviceActivity (lock_id lock) count token) s1))"
      using again(1)
      by (auto dest!: token_step intro: only_token_refresh.request only_token_refresh.wait)
    with again(4) show ?case by (rule only_token_refresh_trans)
  qed
  with y show ?thesis by simp
qed

lemma getLatestDeviceActivityAsync_frame:
  "getLatestDeviceActivityAsync cfg env lock retryCount s = Some y \<Longrightarrow>
   only_token_refresh cfg env s (snd y)"
  by (auto simp: getLatestDeviceActivityAsync_def split: option.splits prod.splits sum.splits
      dest: getDeviceActivityAsync_frame)

lemma slow_close_run:
  "closeAsync demo_config slow demo_lock None (initial 0) =
     Some (Inr (),
       \<lparr>expirationDateTime = Some 3600005, accessToken = Some ''tok'', clock = 2020,
        sent = [PostToken ''user@example.org'' ''secret'', PostClose 7 ''tok'',
                GetOperation ''op'' ''tok'', GetOperation ''op'' ''tok'']\<rparr>)"
  by code_simp

lemma offline_token_run:
  "getAccessTokenAsync demo_config offline None (initial 0) =
     (Inl (Error ''offline''),
      \<lparr>expirationDateTime = None, accessToken = None, clock = 1015,
       sent = [PostToken ''user@example.org'' ''secret'', PostToken ''user@example.org'' ''secret'',
               PostToken ''user@example.org'' ''secret'']\<rparr>)"
  by code_simp

subsection \<open>Polling until completed\<close>

lemma command_attempt_two_polls:
  assumes "pendingPendingCompleted env (sent s1) post token"
  shows "\<exists>o1 o2 s2. command_attempt env post token s1 = Some (Inr (), s2) \<and>
      sent s2 = sent s1 @ [post, GetOperation o1 token, GetOperation o2 token]"
proof -
  from assms obtain r0 r1 r2 where
    r0: "operation env (sent s1) post = Inr r0" "status (result r0) \<noteq> Completed"
    and r1: "operation env (sent s1 @ [post]) (GetOperation (operationId (result r0)) token) = Inr r1"
      "status (result r1) \<noteq> Completed"
    and r2: "operation env (sent s1 @ [post, GetOperation (operationId (result r0)) token])
        (GetOperation (operationId (result r1)) token) = Inr r2"
      "status (result r2) = Completed"
    by (auto simp: pendingPendingCompleted_def Let_def split: sum.splits)
  let ?p1 = "GetOperation (operationId (result r0)) token"
  let ?p2 = "GetOperation (operationId (result r1)) token"
  let ?s2 = "send env ?p1 (delay 1000 (send env post s1))"
  let ?s3 = "send env ?p2 (delay 1000 ?s2)"
  have "command_attempt env post token s1 = waitForCompletion env token r0 (send env post s1)"
    using r0 by (simp add: command_attempt_def)
  also have "\<dots> = waitForCompletion env token r1 ?s2"
    using r0 r1 by (simp add: wait_again)
  also have "\<dots> = waitForCompletion env token r2 ?s3"
    using r1 r2 by (simp add: wait_again)
  also have "\<dots> = Some (Inr (), ?s3)"
    using r2 by (simp add: wait_done)
  finally show ?thesis by (intro exI [of _ "operationId (result r0)"]
        exI [of _ "operationId (result r1)"] exI [of _ ?s3]) simp
qed

lemma never_completed_wait:
  assumes nc: "neverCompleted env" and st: "status (result response) \<noteq> Completed"
  shows "waitForCompletion env token response s = None"
proof (rule ccontr)
  assume "waitForCompletion env token response s \<noteq> None"
  then obtain y where run: "waitForCompletion env token response s = Some y" by auto
  have "neverCompleted env \<longrightarrow> status (result response) = Completed"
  proof (rule waitForCompletion.raw_induct [OF _ run])
    fix wait env token and response :: OperationResponse and s y
    assume IH: "\<And>env token response s y. wait env token response s = Some y \<Longrightarrow>
        neverCompleted env \<longrightarrow> status (result response) = Completed"
      and body: "(if status (result response) \<noteq> Completed
        then let s1 = delay 1000 s;
                 req = GetOperation (operationId (result response)) token;
                 reply = operation env (sent s1) req; s2 = send env req s1
             in case reply of Inl e \<Rightarrow> Some (Inl e, s2)
                | Inr response' \<Rightarrow> wait env token response' s2
        else Some (Inr (), s)) = Some y"
    show "neverCompleted env \<longrightarrow> status (result response) = Completed"
    proof (intro impI, rule ccontr)
      assume nc: "neverCompleted env" and st: "status (result response) \<noteq> Completed"
      let ?req = "GetOperation (operationId (result response)) token"
      from nc have "case operation env (sent s) ?req of Inl e \<Rightarrow> False
          | Inr response' \<Rightarrow> status (result response') \<noteq> Completed"
        by (simp add: neverCompleted_def)
      then obtain response' where r: "operation env (sent s) ?req = Inr response'"
        and st': "status (result response') \<noteq> Completed"
        by (cases "operation env (sent s) ?req") auto
      from body st r have "wait env token response' (send env ?req (delay 1000 s)) = Some y"
        by (simp add: Let_def)
      from IH [OF this] nc st' show False by simp
    qed
  qed
  with nc st show False by simp
qed

lemma retry_completed:
  assumes run: "retry cfg env attempt n s = Some (r, s')"
    and att: "\<And>token s1 r s2. attempt token s1 = Some (r, s2) \<Longrightarrow>
      \<exists>new. sent s2 = sent s1 @ new \<and> (r = Inr () \<longrightarrow> completedIn env (sent s1) new)"
  shows "\<exists>new. sent s' = sent s @ new \<and> (r = Inr () \<longrightarrow> completedIn env (sent s) new)"
  using run
proof (induction rule: retry_run)
  case (no_token n s e s1)
  then show ?case using getAccessTokenAsync_sent [of cfg env None s] by auto
next
  case (succeeded n s token s1 v s2)
  from getAccessTokenAsync_sent [of cfg env None s] succeeded(1)
  obtain toks where t: "sent s1 = sent s @ toks" by auto
  from att [OF succeeded(2)] obtain new where
    n: "sent s2 = sent s1 @ new" "completedIn env (sent s1) new" by auto
  show ?case using t n by (intro exI [of _ "toks @ new"]) (simp add: completedIn_append)
next
  case (gave_up n s token s1 e s2)
  from getAccessTokenAsync_sent [of cfg env None s] gave_up(1)
  obtain toks where t: "sent s1 = sent s @ toks" by auto
  from att [OF gave_up(2)] obtain new where "sent s2 = sent s1 @ new" by auto
  with t show ?case by simp
next
  case (again n s token s1 e s2 r s')
  from getAccessTokenAsync_sent [of cfg env None s] again(1)
  obtain toks where t: "sent s1 = sent s @ toks" by auto
  from att [OF again(2)] obtain new where n: "sent s2 = sent s1 @ new" by auto
  from again(5) obtain new' where
    n': "sent s' = sent s2 @ new'" "r = Inr () \<longrightarrow> completedIn env (sent s2) new'" by auto
  show ?case using t n n'
    by (intro exI [of _ "toks @ new @ new'"]) (simp add: completedIn_append)
qed

lemma command_attempt_completed:
  assumes "command_attempt env req token s1 = Some (r, s2)"
    and "route_of req \<in> {Close, Open, PullSpring, Poll}"
  shows "\<exists>new. sent s2 = sent s1 @ new \<and> (r = Inr () \<longrightarrow> completedIn env (sent s1) new)"
  using command_attempt_returns(3) [OF assms(1)] assms(2) by auto

lemma slow_token_run:
  "getAccessTokenAsync demo_config slow None (initial 0) =
     (Inr ''tok'',
      \<lparr>expirationDateTime = Some 3600005, accessToken = Some ''tok'', clock = 5,
       sent = [PostToken ''user@example.org'' ''secret'']\<rparr>)"
  by code_simp

lemma slow_open_run:
  "openAsync demo_config slow demo_lock None (initial 0) =
     Some (Inr (),
       \<lparr>expirationDateTime = Some 3600005, accessToken = Some ''tok'', clock = 2020,
        sent = [PostToken ''user@example.org'' ''secret'', PostOpen 7 ''tok'',
                GetOperation ''op'' ''tok'', GetOperation ''op'' ''tok'']\<rparr>)"
  by code_simp

lemma slow_pullSpring_run:
  "pullSpringAsync demo_config slow demo_lock None (initial 0) =
     Some (Inr (),
       \<lparr>expirationDateTime = Some 3600005, accessToken = Some ''tok'', clock = 2020,
        sent = [PostToken ''user@example.org'' ''secret'', PostPullSpring 7 ''tok'',
                GetOperation ''op'' ''tok'', GetOperation ''op'' ''tok'']\<rparr>)"
  by code_simp

lemma slow_pendingPendingCompleted:
  "pendingPendingCompleted slow [PostToken ''user@example.org'' ''secret''] (PostClose 7 ''tok'') ''tok''"
  "pendingPendingCompleted slow [PostToken ''user@example.org'' ''secret''] (PostOpen 7 ''tok'') ''tok''"
  "pendingPendingCompleted slow [PostToken ''user@example.org'' ''secret''] (PostPullSpring 7 ''tok'') ''tok''"
  by (simp_all add: pendingPendingCompleted_def slow_def online_def offline_def pending_def
      completed_def ok_def)

lemma stuck_neverCompleted: "neverCompleted stuck"
  by (simp add: neverCompleted_def stuck_def online_def offline_def pending_def ok_def)

lemma stuck_token_run:
  "getAccessTokenAsync demo_config stuck None (initial 0) =
     (Inr ''tok'',
      \<lparr>expirationDateTime = Some 3600005, accessToken = Some ''tok'', clock = 5,
       sent = [PostToken ''user@example.org'' ''secret'']\<rparr>)"
  by code_simp

lemma stuck_post:
  "operation stuck h req = Inr pending" "status (result pending) = Pending"
  by (simp_all add: stuck_def online_def offline_def pending_def ok_def)

subsection \<open>getDeviceActivityAsync when every request is rejected\<close>

lemma activity_never_gives_up:
  assumes tok: "token_ok env"
    and down: "\<forall>h req. isl (get_deviceactivity env h req)"
    and two: "2 \<le> maximumApiRetry cfg"
  shows "getDeviceActivityAsync cfg env lock count None s = None"
proof (rule ccontr)
  assume "getDeviceActivityAsync cfg env lock count None s \<noteq> None"
  then obtain r s' where run: "getDeviceActivityAsync cfg env lock count None s = Some (r, s')"
    by auto
  have "retryCount \<noteq> None"
    if "getDeviceActivityAsync cfg env lock count retryCount s = Some (r, s')"
    for count retryCount s r s'
    using that
  proof (induction rule: activity_run)
    case (no_token count retryCount s e s1)
    with token_ok_succeeds [OF tok, of cfg None s] show ?case by simp
  next
    case (succeeded count retryCount s token s1 response)
    with down show ?case by (metis isl_def sum.distinct(1))
  next
    case (gave_up count retryCount s token s1 e)
    with two show ?case by (cases retryCount) auto
  next
    case (again count retryCount s token s1 e r s')
    then show ?case by simp
  qed
  from this [OF run] show False by simp
qed

subsection \<open>The first request of an operation\<close>

lemma retry_sent:
  assumes run: "retry cfg env attempt n s = Some (r, s')"
    and att: "\<And>token s1 r s2. attempt token s1 = Some (r, s2) \<Longrightarrow> \<exists>new. sent s2 = sent s1 @ new"
  shows "\<exists>new. sent s' = sent s @ new"
  using run
proof (induction rule: retry_run)
  case (no_token n s e s1)
  then show ?case using getAccessTokenAsync_sent [of cfg env None s] by auto
next
  case (succeeded n s token s1 v s2)
  with att [OF succeeded(2)] getAccessTokenAsync_sent [of cfg env None s] show ?case by auto
next
  case (gave_up n s token s1 e s2)
  with att [OF gave_up(2)] getAccessTokenAsync_sent [of cfg env None s] show ?case by auto
next
  case (again n s token s1 e s2 r s')
  with att [OF again(2)] getAccessTokenAsync_sent [of cfg env None s] show ?case by auto
qed

lemma retry_first_request:
  assumes tok: "getAccessTokenAsync cfg env None s = (Inr token, s1)"
    and run: "retry cfg env attempt n s = Some (r, s')"
    and att: "\<And>token s1 r s2. attempt token s1 = Some (r, s2) \<Longrightarrow>
      \<exists>new. sent s2 = sent s1 @ first token # new"
  shows "\<exists>rest. sent s' = sent s1 @ first token # rest"
proof (cases "attempt token s1")
  case None
  with tok run show ?thesis by (simp add: retry_diverges)
next
  case (Some p)
  obtain r2 s2 where p: "attempt token s1 = Some (r2, s2)" using Some by (cases p) simp
  from att [OF p] obtain new where new: "sent s2 = sent s1 @ first token # new" by auto
  show ?thesis
  proof (cases r2)
    case (Inr v)
    with tok p run new show ?thesis by (simp add: retry_done)
  next
    case (Inl e)
    note p = p [unfolded Inl]
    show ?thesis
    proof (cases "n - 1 > 0")
      case True
      from run have "retry cfg env attempt (n - 1) (delay (apiRetryInterval cfg) s2) = Some (r, s')"
        by (simp add: retry_again [where attempt = attempt, OF tok p True])
      from retry_sent [OF this] att obtain more where "sent s' = sent s2 @ more"
        by (metis delay_fields(3))
      with new show ?thesis by simp
    next
      case False
      with tok p run new show ?thesis by (simp add: retry_gave_up)
    qed
  qed
qed

lemma activity_sent:
  assumes "getDeviceActivityAsync cfg env lock count retryCount s = Some (r, s')"
  shows "\<exists>new. sent s' = sent s @ new"
  using assms
proof (induction rule: activity_run)
  case (no_token count retryCount s e s1)
  then show ?case using getAccessTokenAsync_sent [of cfg env None s] by auto
next
  case (succeeded count retryCount s token s1 response)
  then show ?case using getAccessTokenAsync_sent [of cfg env None s] by auto
next
  case (gave_up count retryCount s token s1 e)
  then show ?case using getAccessTokenAsync_sent [of cfg env None s] by auto
next
  case (again count retryCount s token s1 e r s')
  then show ?case using getAccessTokenAsync_sent [of cfg env None s] by auto
qed

lemma activity_first_request:
  assumes tok: "getAccessTokenAsync cfg env None s = (Inr token, s1)"
    and run: "getDeviceActivityAsync cfg env lock count retryCount s = Some (r, s')"
  shows "\<exists>rest. sent s' = sent s1 @ GetDeviceActivity (lock_id lock) count token # rest"
proof (cases "get_deviceactivity env (sent s1) (GetDeviceActivity (lock_id lock) count token)")
  case (Inr response)
  from run show ?thesis by (auto simp: activity_done [OF tok Inr])
next
  case (Inl e)
  show ?thesis
  proof (cases "orDefault retryCount (maximumApiRetry cfg) - 1 > 0")
    case True
    from run activity_again [OF tok Inl True]
    have "getDeviceActivityAsync cfg env lock (orDefault retryCount (maximumApiRetry cfg) - 1) None
       (delay (apiRetryInterval cfg) (send env (GetDeviceActivity (lock_id lock) count token) s1)) =
       Some (r, s')" by simp
    from activity_sent [OF this] show ?thesis by auto
  next
    case False
    from run show ?thesis by (auto simp: activity_gave_up [OF tok Inl False])
  qed
qed

lemma token_first_request:
  assumes "cached (accessToken (expire s)) = None"
  shows "\<exists>rest. sent (snd (getAccessTokenAsync cfg env retryCount s)) =
      sent s @ PostToken (emailAddress cfg) (password cfg) # rest"
proof (cases "post_token env (sent s) (PostToken (emailAddress cfg) (password cfg))")
  case (Inr response)
  with assms show ?thesis by (simp add: token_fetched)
next
  case (Inl e)
  show ?thesis
  proof (cases "orDefault retryCount (maximumTokenRetry cfg) - 1 > 0")
    case True
    show ?thesis
      using getAccessTokenAsync_sent [of cfg env
          "Some (orDefault retryCount (maximumTokenRetry cfg) - 1)"
          "delay (tokenRetryInterval cfg)
            (send env (PostToken (emailAddress cfg) (password cfg)) (expire s))"]
      by (auto simp: token_retried [OF assms Inl True])
  next
    case False
    then show ?thesis by (simp add: token_thrown [OF assms Inl False])
  qed
qed

subsection \<open>A retry count of zero is the default\<close>

lemma getAccessTokenAsync_zero:
  "getAccessTokenAsync cfg env (Some 0) s = getAccessTokenAsync cfg env None s"
  by (simp add: getAccessTokenAsync.simps [of _ _ "Some 0"] getAccessTokenAsync.simps [of _ _ None]
      cong: option.case_cong sum.case_cong)

lemma getLocksAsync_zero:
  "getLocksAsync cfg env (Some 0) s = getLocksAsync cfg env None s"
  by (simp add: getLocksAsync.simps [of _ _ "Some 0"] getLocksAsync.simps [of _ _ None])

lemma syncLocksAsync_zero:
  "syncLocksAsync cfg env (Some 0) s = syncLocksAsync cfg env None s"
  by (simp add: syncLocksAsync.simps [of _ _ "Some 0"] syncLocksAsync.simps [of _ _ None])

lemma syncLockAsync_zero:
  "syncLockAsync cfg env id' (Some 0) s = syncLockAsync cfg env id' None s"
  by (simp add: syncLockAsync.simps [of _ _ _ "Some 0"] syncLockAsync.simps [of _ _ _ None])

lemma closeAsync_zero:
  "closeAsync cfg env lock (Some 0) s = closeAsync cfg env lock None s"
  by (rule trans [OF closeAsync.simps], rule sym, rule trans [OF closeAsync.simps], simp)

lemma openAsync_zero:
  "openAsync cfg env lock (Some 0) s = openAsync cfg env lock None s"
  by (rule trans [OF openAsync.simps], rule sym, rule trans [OF openAsync.simps], simp)

lemma pullSpringAsync_zero:
  "pullSpringAsync cfg env lock (Some 0) s = pullSpringAsync cfg env lock None s"
  by (rule trans [OF pullSpringAsync.simps], rule sym, rule trans [OF pullSpringAsync.simps], simp)

lemma getDeviceActivityAsync_zero:
  "getDeviceActivityAsync cfg env lock count (Some 0) s =
   getDeviceActivityAsync cfg env lock count None s"
  by (rule trans [OF getDeviceActivityAsync.simps], rule sym,
      rule trans [OF getDeviceActivityAsync.simps], simp)

lemma no_retry_token_run:
  "getAccessTokenAsync no_retry_config offline (Some 0) (initial 0) =
     (Inl (Error ''offline''),
      \<lparr>expirationDateTime = None, accessToken = None, clock = 5,
       sent = [PostToken ''user@example.org'' ''secret'']\<rparr>)"
  by code_simp

lemma no_retry_online_token_run:
  "getAccessTokenAsync no_retry_config online None (initial 0) =
     (Inr ''tok'',
      \<lparr>expirationDateTime = Some 3600005, accessToken = Some ''tok'', clock = 5,
       sent = [PostToken ''user@example.org'' ''secret'']\<rparr>)"
  by code_simp

lemma no_retry_locks_run:
  "getLocksAsync no_retry_config online (Some 0) (initial 0) =
     (Inl (Error ''offline''),
      \<lparr>expirationDateTime = Some 3600005, accessToken = Some ''tok'', clock = 10,
       sent = [PostToken ''user@example.org'' ''secret'', GetLocks ''tok'']\<rparr>)"
  by code_simp

lemma no_retry_close_run:
  "closeAsync no_retry_config online demo_lock (Some 0) (initial 0) =
     Some (Inl (Error ''offline''),
      \<lparr>expirationDateTime = Some 3600005, accessToken = Some ''tok'', clock = 10,
       sent = [PostToken ''user@example.org'' ''secret'', PostClose 7 ''tok'']\<rparr>)"
  by code_simp

subsection \<open>Attempts that fail, then one that succeeds\<close>

lemma retry_fails_then_succeeds:
  fixes attempt :: "string \<Rightarrow> state \<Rightarrow> ((error + 'a) \<times> state) option"
  assumes tok: "token_ok env" and k: "k \<noteq> Token"
    and fail: "\<And>token s1. attempts k (sent s1) < N \<Longrightarrow>
      \<exists>e s2. attempt token s1 = Some (Inl e, s2) \<and> attempts k (sent s2) = Suc (attempts k (sent s1))"
    and ok: "\<And>token s1. attempts k (sent s1) = N \<Longrightarrow>
      \<exists>s2. attempt token s1 = Some (Inr v, s2) \<and> attempts k (sent s2) = Suc N"
  shows "attempts k (sent s) + j = N \<Longrightarrow> int j < n \<Longrightarrow>
    \<exists>s'. retry cfg env attempt n s = Some (Inr v, s') \<and> attempts k (sent s') = Suc N"
proof (induction j arbitrary: s n)
  case 0
  from token_ok_succeeds [OF tok, of cfg None s] obtain token s1
    where t: "getAccessTokenAsync cfg env None s = (Inr token, s1)" by blast
  have "attempts k (sent s1) = N"
    using getAccessTokenAsync_attempts [OF k, of cfg env None s] t 0 by simp
  from ok [OF this, of token] obtain s2 where "attempt token s1 = Some (Inr v, s2)"
    and "attempts k (sent s2) = Suc N" by blast
  with t show ?case by (simp add: retry_done [where attempt = attempt])
next
  case (Suc j)
  from token_ok_succeeds [OF tok, of cfg None s] obtain token s1
    where t: "getAccessTokenAsync cfg env None s = (Inr token, s1)" by blast
  have c: "attempts k (sent s1) = attempts k (sent s)"
    using getAccessTokenAsync_attempts [OF k, of cfg env None s] t by simp
  with Suc.prems have "attempts k (sent s1) < N" by simp
  from fail [OF this, of token] obtain e s2 where a: "attempt token s1 = Some (Inl e, s2)"
    and c2: "attempts k (sent s2) = Suc (attempts k (sent s1))" by blast
  have pos: "n - 1 > 0" using Suc.prems by simp
  have "attempts k (sent (delay (apiRetryInterval cfg) s2)) + j = N"
    using c c2 Suc.prems by simp
  moreover have "int j < n - 1" using Suc.prems by simp
  ultimately have "\<exists>s'. retry cfg env attempt (n - 1) (delay (apiRetryInterval cfg) s2) =
      Some (Inr v, s') \<and> attempts k (sent s') = Suc N"
    by (rule Suc.IH)
  then show ?case by (simp add: retry_again [where attempt = attempt, OF t a pos])
qed

lemma get_fails_then_succeeds:
  assumes tok: "token_ok env" and k: "k \<noteq> Token" and req: "\<And>token. route_of (req token) = k"
    and env: "failsUntil k endpoint (attempts k (sent s) + j) response"
    and j: "int j < n"
  shows "\<exists>s'. retry cfg env (\<lambda>token. get_attempt endpoint env (req token)) n s =
      Some (Inr (result response), s') \<and> attempts k (sent s') = attempts k (sent s) + j + 1"
proof -
  let ?N = "attempts k (sent s) + j"
  have fail: "\<exists>e s2. get_attempt endpoint env (req token) s1 = Some (Inl e, s2) \<and>
      attempts k (sent s2) = Suc (attempts k (sent s1))"
    if "attempts k (sent s1) < ?N" for token s1
  proof -
    from env that req [of token] have "isl (endpoint (sent s1) (req token))"
      by (simp add: failsUntil_def)
    then obtain e where "endpoint (sent s1) (req token) = Inl e" by (auto simp: isl_def)
    then show ?thesis using req [of token] by (simp add: get_attempt_def)
  qed
  have ok: "\<exists>s2. get_attempt endpoint env (req token) s1 = Some (Inr (result response), s2) \<and>
      attempts k (sent s2) = Suc ?N"
    if "attempts k (sent s1) = ?N" for token s1
  proof -
    from env that req [of token] have "endpoint (sent s1) (req token) = Inr response"
      by (simp add: failsUntil_def)
    then show ?thesis using req [of token] that by (simp add: get_attempt_def)
  qed
  from retry_fails_then_succeeds [where attempt = "\<lambda>token. get_attempt endpoint env (req token)",
      OF tok k fail ok refl j]
  show ?thesis by simp
qed

lemma activity_fails_then_succeeds:
  assumes tok: "token_ok env"
    and env: "failsUntil Activity (get_deviceactivity env) N response"
  shows "attempts Activity (sent s) + j = N \<Longrightarrow>
    int j < orDefault retryCount (maximumApiRetry cfg) \<Longrightarrow> int j \<le> maximumApiRetry cfg \<Longrightarrow>
    \<exists>s'. getDeviceActivityAsync cfg env lock count retryCount s =
        Some (Inr (result response), s') \<and> attempts Activity (sent s') = Suc N"
proof (induction j arbitrary: s count retryCount)
  case 0
  from token_ok_succeeds [OF tok, of cfg None s] obtain token s1
    where t: "getAccessTokenAsync cfg env None s = (Inr token, s1)" by blast
  have c: "attempts Activity (sent s1) = N"
    using getAccessTokenAsync_attempts [of Activity cfg env None s] t 0 by simp
  with env have "get_deviceactivity env (sent s1) (GetDeviceActivity (lock_id lock) count token) =
      Inr response"
    by (simp add: failsUntil_def)
  from activity_done [OF t this] c show ?case by simp
next
  case (Suc j)
  from token_ok_succeeds [OF tok, of cfg None s] obtain token s1
    where t: "getAccessTokenAsync cfg env None s = (Inr token, s1)" by blast
  have c: "attempts Activity (sent s1) = attempts Activity (sent s)"
    using getAccessTokenAsync_attempts [of Activity cfg env None s] t by simp
  let ?req = "GetDeviceActivity (lock_id lock) count token"
  from env c Suc.prems have "isl (get_deviceactivity env (sent s1) ?req)"
    by (simp add: failsUntil_def)
  then obtain e where r: "get_deviceactivity env (sent s1) ?req = Inl e" by (auto simp: isl_def)
  have pos: "orDefault retryCount (maximumApiRetry cfg) - 1 > 0" using Suc.prems by simp
  have "\<exists>s'. getDeviceActivityAsync cfg env lock (orDefault retryCount (maximumApiRetry cfg) - 1)
        None (delay (apiRetryInterval cfg) (send env ?req s1)) =
        Some (Inr (result response), s') \<and> attempts Activity (sent s') = Suc N"
    using c Suc.prems by (intro Suc.IH) simp_all
  then show ?case by (simp add: activity_again [OF t r pos])
qed

lemma result_ok [simp]: "result (ok r) = r"
  by (simp add: ok_def)

lemma flaky_token_ok: "token_ok (flaky k)"
  by (simp add: token_ok_def flaky_def online_def offline_def)

lemma flaky_failsUntil:
  "failsUntil Locks (get_locks (flaky k)) 1 (ok house_locks)"
  "failsUntil LocksSync (get_locks_sync (flaky k)) 1 (ok [\<lparr>sync_id = 1\<rparr>])"
  "failsUntil LockSyncOf (get_lock_sync (flaky k)) 1 (ok \<lparr>sync_id = 1\<rparr>)"
  "failsUntil Activity (get_deviceactivity (flaky k)) 1 (ok [])"
  by (simp_all add: failsUntil_def flaky_def online_def offline_def)

subsection \<open>Attempts that all fail\<close>

lemma retry_exhausts:
  fixes attempt :: "string \<Rightarrow> state \<Rightarrow> ((error + 'a) \<times> state) option"
  assumes tok: "token_ok env" and k: "k \<noteq> Token"
    and fail: "\<And>token s1. \<exists>s2. attempt token s1 = Some (Inl e, s2) \<and>
      attempts k (sent s2) = Suc (attempts k (sent s1))"
  shows "nat n = Suc j \<Longrightarrow>
    \<exists>s'. retry cfg env attempt n s = Some (Inl e, s') \<and>
      attempts k (sent s') = attempts k (sent s) + nat n"
proof (induction j arbitrary: s n)
  case 0
  from token_ok_succeeds [OF tok, of cfg None s] obtain token s1
    where t: "getAccessTokenAsync cfg env None s = (Inr token, s1)" by blast
  have c: "attempts k (sent s1) = attempts k (sent s)"
    using getAccessTokenAsync_attempts [OF k, of cfg env None s] t by simp
  from fail [of token s1] obtain s2 where a: "attempt token s1 = Some (Inl e, s2)"
    and c2: "attempts k (sent s2) = Suc (attempts k (sent s1))" by blast
  have "\<not> n - 1 > 0" using 0 by simp
  from retry_gave_up [where attempt = attempt, OF t a this] c c2 0 show ?case by simp
next
  case (Suc j)
  from token_ok_succeeds [OF tok, of cfg None s] obtain token s1
    where t: "getAccessTokenAsync cfg env None s = (Inr token, s1)" by blast
  have c: "attempts k (sent s1) = attempts k (sent s)"
    using getAccessTokenAsync_attempts [OF k, of cfg env None s] t by simp
  from fail [of token s1] obtain s2 where a: "attempt token s1 = Some (Inl e, s2)"
    and c2: "attempts k (sent s2) = Suc (attempts k (sent s1))" by blast
  have pos: "n - 1 > 0" using Suc.prems by simp
  have m: "nat (n - 1) = Suc j" using Suc.prems by simp
  from Suc.IH [OF m, of "delay (apiRetryInterval cfg) s2"]
  show ?case using c c2 Suc.prems m
    by (simp add: retry_again [where attempt = attempt, OF t a pos])
qed

text \<open>
  The operations that pass \<open>retryCount\<close> on when they retry: with the token endpoint
  answering, \<open>retryCount\<close> omitted and a positive \<open>maximumApiRetry\<close>, a server that
  rejects every request of the operation with \<open>e\<close> makes the operation throw \<open>e\<close>
  itself after exactly \<open>maximumApiRetry\<close> requests.
\<close>

lemma siblings_give_up_after_maximumApiRetry:
  assumes tok: "token_ok env" and pos: "0 < maximumApiRetry cfg"
  shows "((\<forall>h req. get_locks env h req = Inl e) \<longrightarrow>
      (\<exists>s'. getLocksAsync cfg env None s = (Inl e, s') \<and>
         attempts Locks (sent s') = attempts Locks (sent s) + nat (maximumApiRetry cfg))) \<and>
    ((\<forall>h req. get_locks_sync env h req = Inl e) \<longrightarrow>
      (\<exists>s'. syncLocksAsync cfg env None s = (Inl e, s') \<and>
         attempts LocksSync (sent s') = attempts LocksSync (sent s) + nat (maximumApiRetry cfg))) \<and>
    ((\<forall>h req. get_lock_sync env h req = Inl e) \<longrightarrow>
      (\<exists>s'. syncLockAsync cfg env id' None s = (Inl e, s') \<and>
         attempts LockSyncOf (sent s') =
           attempts LockSyncOf (sent s) + nat (maximumApiRetry cfg))) \<and>
    ((\<forall>h req. operation env h req = Inl e) \<longrightarrow>
      (\<exists>s'. closeAsync cfg env lock None s = Some (Inl e, s') \<and>
         attempts Close (sent s') = attempts Close (sent s) + nat (maximumApiRetry cfg)) \<and>
      (\<exists>s'. openAsync cfg env lock None s = Some (Inl e, s') \<and>
         attempts Open (sent s') = attempts Open (sent s) + nat (maximumApiRetry cfg)) \<and>
      (\<exists>s'. pullSpringAsync cfg env lock None s = Some (Inl e, s') \<and>
         attempts PullSpring (sent s') =
           attempts PullSpring (sent s) + nat (maximumApiRetry cfg)))"
proof -
  from pos obtain j where j: "nat (maximumApiRetry cfg) = Suc j"
    by (cases "nat (maximumApiRetry cfg)") auto
  have G: "\<exists>s'. retry cfg env (\<lambda>token. get_attempt endpoint env (req token))
        (maximumApiRetry cfg) s = Some (Inl e, s') \<and>
      attempts k (sent s') = attempts k (sent s) + nat (maximumApiRetry cfg)"
    if "\<forall>h r. endpoint h r = Inl e" "k \<noteq> Token" "\<And>token. route_of (req token) = k"
    for k req and endpoint :: "request list \<Rightarrow> request \<Rightarrow> error + 'r Response"
    by (rule retry_exhausts [OF tok that(2) _ j]) (simp add: get_attempt_def that)
  have C: "\<exists>s'. retry cfg env (\<lambda>token. command_attempt env (req token) token)
        (maximumApiRetry cfg) s = Some (Inl e, s') \<and>
      attempts k (sent s') = attempts k (sent s) + nat (maximumApiRetry cfg)"
    if "\<forall>h r. operation env h r = Inl e" "k \<noteq> Token" "\<And>token. route_of (req token) = k"
    for k req
    by (rule retry_exhausts [OF tok that(2) _ j]) (simp add: command_attempt_def that)
  have locks: "\<exists>s'. getLocksAsync cfg env None s = (Inl e, s') \<and>
      attempts Locks (sent s') = attempts Locks (sent s) + nat (maximumApiRetry cfg)"
    if "\<forall>h req. get_locks env h req = Inl e"
    using G [of "get_locks env" Locks GetLocks, OF that]
      getLocksAsync_retry [of None cfg _ env s, OF refl]
    by (cases "getLocksAsync cfg env None s") auto
  have syncs: "\<exists>s'. syncLocksAsync cfg env None s = (Inl e, s') \<and>
      attempts LocksSync (sent s') = attempts LocksSync (sent s) + nat (maximumApiRetry cfg)"
    if "\<forall>h req. get_locks_sync env h req = Inl e"
    using G [of "get_locks_sync env" LocksSync GetLocksSync, OF that]
      syncLocksAsync_retry [of None cfg _ env s, OF refl]
    by (cases "syncLocksAsync cfg env None s") auto
  have sync: "\<exists>s'. syncLockAsync cfg env id' None s = (Inl e, s') \<and>
      attempts LockSyncOf (sent s') = attempts LockSyncOf (sent s) + nat (maximumApiRetry cfg)"
    if "\<forall>h req. get_lock_sync env h req = Inl e"
    using G [of "get_lock_sync env" LockSyncOf "GetLockSync id'", OF that]
      syncLockAsync_retry [of None cfg _ env id' s, OF refl]
    by (cases "syncLockAsync cfg env id' None s") auto
  have commands: "(\<exists>s'. closeAsync cfg env lock None s = Some (Inl e, s') \<and>
         attempts Close (sent s') = attempts Close (sent s) + nat (maximumApiRetry cfg)) \<and>
      (\<exists>s'. openAsync cfg env lock None s = Some (Inl e, s') \<and>
         attempts Open (sent s') = attempts Open (sent s) + nat (maximumApiRetry cfg)) \<and>
      (\<exists>s'. pullSpringAsync cfg env lock None s = Some (Inl e, s') \<and>
         attempts PullSpring (sent s') =
           attempts PullSpring (sent s) + nat (maximumApiRetry cfg))"
    if "\<forall>h req. operation env h req = Inl e"
    using C [of Close "PostClose (lock_id lock)", OF that]
      C [of Open "PostOpen (lock_id lock)", OF that]
      C [of PullSpring "PostPullSpring (lock_id lock)", OF that]
    by (simp add: closeAsync_retry [OF refl] openAsync_retry [OF refl]
        pullSpringAsync_retry [OF refl])
  show ?thesis
    using locks syncs sync commands by blast
qed

lemma command_attempt_counts:
  assumes "command_attempt env req token s1 = Some (r, s2)" and "route_of req = k" and "k \<noteq> Poll"
  shows "attempts k (sent s2) = Suc (attempts k (sent s1))"
proof -
  from command_attempt_returns(3) [OF assms(1)] obtain new
    where "sent s2 = sent s1 @ req # new" and "\<forall>x \<in> set new. route_of x = Poll" by blast
  moreover from this(2) assms(3) have "filter (\<lambda>x. route_of x = k) new = []"
    by (auto simp: filter_empty_conv)
  ultimately show ?thesis using assms(2) by (simp add: attempts_def)
qed

text \<open>
  The operations that pass \<open>retryCount\<close> on when they retry, with any \<open>retryCount\<close>:
  with the token endpoint answering and \<open>k\<close> less than the retry count in force, an
  operation whose first \<open>k\<close> attempts fail and whose next attempt succeeds returns the
  result of that attempt after exactly \<open>k + 1\<close> attempts. For a command an attempt is
  the POST and the polls after it, and it may fail at any of them.
\<close>

lemma siblings_fail_then_succeed:
  assumes tok: "token_ok env" and k: "int k < orDefault retryCount (maximumApiRetry cfg)"
  shows
   "(failsUntil Locks (get_locks env) (attempts Locks (sent s) + k) locks \<longrightarrow>
      (\<exists>s'. getLocksAsync cfg env retryCount s = (Inr (result locks), s') \<and>
         attempts Locks (sent s') = attempts Locks (sent s) + k + 1) \<and>
      (\<exists>s'. getLockByNameAsync cfg env name retryCount s =
            (Inr (find (\<lambda>l. lock_name l = name) (result locks)), s') \<and>
         attempts Locks (sent s') = attempts Locks (sent s) + k + 1)) \<and>
    (failsUntil LocksSync (get_locks_sync env) (attempts LocksSync (sent s) + k) syncs \<longrightarrow>
      (\<exists>s'. syncLocksAsync cfg env retryCount s = (Inr (result syncs), s') \<and>
         attempts LocksSync (sent s') = attempts LocksSync (sent s) + k + 1)) \<and>
    (failsUntil LockSyncOf (get_lock_sync env) (attempts LockSyncOf (sent s) + k) sync \<longrightarrow>
      (\<exists>s'. syncLockAsync cfg env id' retryCount s = (Inr (result sync), s') \<and>
         attempts LockSyncOf (sent s') = attempts LockSyncOf (sent s) + k + 1)) \<and>
    ((\<forall>token s1. attempts Close (sent s1) < attempts Close (sent s) + k \<longrightarrow>
        (\<exists>e s2. command_attempt env (PostClose (lock_id lock) token) token s1 =
           Some (Inl e, s2))) \<and>
     (\<forall>token s1. attempts Close (sent s1) = attempts Close (sent s) + k \<longrightarrow>
        (\<exists>s2. command_attempt env (PostClose (lock_id lock) token) token s1 =
           Some (Inr (), s2))) \<longrightarrow>
      (\<exists>s'. closeAsync cfg env lock retryCount s = Some (Inr (), s') \<and>
         attempts Close (sent s') = attempts Close (sent s) + k + 1)) \<and>
    ((\<forall>token s1. attempts Open (sent s1) < attempts Open (sent s) + k \<longrightarrow>
        (\<exists>e s2. command_attempt env (PostOpen (lock_id lock) token) token s1 =
           Some (Inl e, s2))) \<and>
     (\<forall>token s1. attempts Open (sent s1) = attempts Open (sent s) + k \<longrightarrow>
        (\<exists>s2. command_attempt env (PostOpen (lock_id lock) token) token s1 =
           Some (Inr (), s2))) \<longrightarrow>
      (\<exists>s'. openAsync cfg env lock retryCount s = Some (Inr (), s') \<and>
         attempts Open (sent s') = attempts Open (sent s) + k + 1)) \<and>
    ((\<forall>token s1. attempts PullSpring (sent s1) < attempts PullSpring (sent s) + k \<longrightarrow>
        (\<exists>e s2. command_attempt env (PostPullSpring (lock_id lock) token) token s1 =
           Some (Inl e, s2))) \<and>
     (\<forall>token s1. attempts PullSpring (sent s1) = attempts PullSpring (sent s) + k \<longrightarrow>
        (\<exists>s2. command_attempt env (PostPullSpring (lock_id lock) token) token s1 =
           Some (Inr (), s2))) \<longrightarrow>
      (\<exists>s'. pullSpringAsync cfg env lock retryCount s = Some (Inr (), s') \<and>
         attempts PullSpring (sent s') = attempts PullSpring (sent s) + k + 1))"
proof -
  let ?n = "orDefault retryCount (maximumApiRetry cfg)"
  have locks: "\<exists>s'. getLocksAsync cfg env retryCount s = (Inr (result locks), s') \<and>
      attempts Locks (sent s') = attempts Locks (sent s) + k + 1"
    if "failsUntil Locks (get_locks env) (attempts Locks (sent s) + k) locks"
    using get_fails_then_succeeds [where req = GetLocks and cfg = cfg, OF tok _ _ that k]
      getLocksAsync_retry [of retryCount cfg _ env s, OF refl]
    by (cases "getLocksAsync cfg env retryCount s") auto
  have byName: "\<exists>s'. getLockByNameAsync cfg env name retryCount s =
        (Inr (find (\<lambda>l. lock_name l = name) (result locks)), s') \<and>
      attempts Locks (sent s') = attempts Locks (sent s) + k + 1"
    if "failsUntil Locks (get_locks env) (attempts Locks (sent s) + k) locks"
    using locks [OF that] by (auto simp: getLockByNameAsync_def)
  have syncs: "\<exists>s'. syncLocksAsync cfg env retryCount s = (Inr (result syncs), s') \<and>
      attempts LocksSync (sent s') = attempts LocksSync (sent s) + k + 1"
    if "failsUntil LocksSync (get_locks_sync env) (attempts LocksSync (sent s) + k) syncs"
    using get_fails_then_succeeds [where req = GetLocksSync and cfg = cfg, OF tok _ _ that k]
      syncLocksAsync_retry [of retryCount cfg _ env s, OF refl]
    by (cases "syncLocksAsync cfg env retryCount s") auto
  have sync: "\<exists>s'. syncLockAsync cfg env id' retryCount s = (Inr (result sync), s') \<and>
      attempts LockSyncOf (sent s') = attempts LockSyncOf (sent s) + k + 1"
    if "failsUntil LockSyncOf (get_lock_sync env) (attempts LockSyncOf (sent s) + k) sync"
    using get_fails_then_succeeds [where req = "GetLockSync id'" and cfg = cfg, OF tok _ _ that k]
      syncLockAsync_retry [of retryCount cfg _ env id' s, OF refl]
    by (cases "syncLockAsync cfg env id' retryCount s") auto
  have command: "\<exists>s'. retry cfg env (\<lambda>token. command_attempt env (req token) token) ?n s =
        Some (Inr (), s') \<and> attempts r (sent s') = attempts r (sent s) + k + 1"
    if route: "\<And>token. route_of (req token) = r" and r: "r \<noteq> Token" "r \<noteq> Poll"
      and fail: "\<forall>token s1. attempts r (sent s1) < attempts r (sent s) + k \<longrightarrow>
        (\<exists>e s2. command_attempt env (req token) token s1 = Some (Inl e, s2))"
      and ok: "\<forall>token s1. attempts r (sent s1) = attempts r (sent s) + k \<longrightarrow>
        (\<exists>s2. command_attempt env (req token) token s1 = Some (Inr (), s2))"
    for req r
  proof -
    have f: "\<exists>e s2. command_attempt env (req token) token s1 = Some (Inl e, s2) \<and>
        attempts r (sent s2) = Suc (attempts r (sent s1))"
      if "attempts r (sent s1) < attempts r (sent s) + k" for token s1
      using fail that command_attempt_counts [OF _ route r(2)] by blast
    have o: "\<exists>s2. command_attempt env (req token) token s1 = Some (Inr (), s2) \<and>
        attempts r (sent s2) = Suc (attempts r (sent s) + k)"
      if "attempts r (sent s1) = attempts r (sent s) + k" for token s1
      using ok that command_attempt_counts [OF _ route r(2)] by (metis (no_types))
    from retry_fails_then_succeeds [where attempt = "\<lambda>token. command_attempt env (req token) token",
        OF tok r(1) f o refl k]
    show ?thesis by simp
  qed
  show ?thesis
    using locks byName syncs sync
      command [of "PostClose (lock_id lock)" Close] command [of "PostOpen (lock_id lock)" Open]
      command [of "PostPullSpring (lock_id lock)" PullSpring]
    by (simp add: closeAsync_retry [OF refl] openAsync_retry [OF refl]
        pullSpringAsync_retry [OF refl])
qed

subsection \<open>A retry count of zero is the configured count\<close>

lemma orDefault_self [simp]: "orDefault (Some d) d = d"
  by simp

lemma getAccessTokenAsync_configured:
  "getAccessTokenAsync cfg env (Some 0) s =
   getAccessTokenAsync cfg env (Some (maximumTokenRetry cfg)) s"
  by (simp add: getAccessTokenAsync.simps [of cfg env "Some 0" s]
      getAccessTokenAsync.simps [of cfg env "Some (maximumTokenRetry cfg)" s]
      cong: option.case_cong sum.case_cong)

lemma getLocksAsync_configured:
  "getLocksAsync cfg env (Some 0) s = getLocksAsync cfg env (Some (maximumApiRetry cfg)) s"
proof -
  have "Some (getLocksAsync cfg env (Some 0) s) =
      retry cfg env (\<lambda>token. get_attempt (get_locks env) env (GetLocks token)) (maximumApiRetry cfg) s"
    by (rule getLocksAsync_retry) simp
  moreover have "Some (getLocksAsync cfg env (Some (maximumApiRetry cfg)) s) =
      retry cfg env (\<lambda>token. get_attempt (get_locks env) env (GetLocks token)) (maximumApiRetry cfg) s"
    by (rule getLocksAsync_retry) simp
  ultimately have "Some (getLocksAsync cfg env (Some 0) s) =
      Some (getLocksAsync cfg env (Some (maximumApiRetry cfg)) s)"
    by (rule trans [OF _ sym])
  then show ?thesis by (simp only: option.inject)
qed

lemma syncLocksAsync_configured:
  "syncLocksAsync cfg env (Some 0) s = syncLocksAsync cfg env (Some (maximumApiRetry cfg)) s"
proof -
  have "Some (syncLocksAsync cfg env (Some 0) s) =
      retry cfg env (\<lambda>token. get_attempt (get_locks_sync env) env (GetLocksSync token)) (maximumApiRetry cfg) s"
    by (rule syncLocksAsync_retry) simp
  moreover have "Some (syncLocksAsync cfg env (Some (maximumApiRetry cfg)) s) =
      retry cfg env (\<lambda>token. get_attempt (get_locks_sync env) env (GetLocksSync token)) (maximumApiRetry cfg) s"
    by (rule syncLocksAsync_retry) simp
  ultimately have "Some (syncLocksAsync cfg env (Some 0) s) =
      Some (syncLocksAsync cfg env (Some (maximumApiRetry cfg)) s)"
    by (rule trans [OF _ sym])
  then show ?thesis by (simp only: option.inject)
qed

lemma syncLockAsync_configured:
  "syncLockAsync cfg env id' (Some 0) s = syncLockAsync cfg env id' (Some (maximumApiRetry cfg)) s"
proof -
  have "Some (syncLockAsync cfg env id' (Some 0) s) =
      retry cfg env (\<lambda>token. get_attempt (get_lock_sync env) env (GetLockSync id' token)) (maximumApiRetry cfg) s"
    by (rule syncLockAsync_retry) simp
  moreover have "Some (syncLockAsync cfg env id' (Some (maximumApiRetry cfg)) s) =
      retry cfg env (\<lambda>token. get_attempt (get_lock_sync env) env (GetLockSync id' token)) (maximumApiRetry cfg) s"
    by (rule syncLockAsync_retry) simp
  ultimately have "Some (syncLockAsync cfg env id' (Some 0) s) =
      Some (syncLockAsync cfg env id' (Some (maximumApiRetry cfg)) s)"
    by (rule trans [OF _ sym])
  then show ?thesis by (simp only: option.inject)
qed

lemma closeAsync_configured:
  "closeAsync cfg env lock (Some 0) s = closeAsync cfg env lock (Some (maximumApiRetry cfg)) s"
  by (simp add: closeAsync_retry [OF refl])

lemma openAsync_configured:
  "openAsync cfg env lock (Some 0) s = openAsync cfg env lock (Some (maximumApiRetry cfg)) s"
  by (simp add: openAsync_retry [OF refl])

lemma pullSpringAsync_configured:
  "pullSpringAsync cfg env lock (Some 0) s =
   pullSpringAsync cfg env lock (Some (maximumApiRetry cfg)) s"
  by (simp add: pullSpringAsync_retry [OF refl])

lemma getDeviceActivityAsync_configured:
  "getDeviceActivityAsync cfg env lock count (Some 0) s =
   getDeviceActivityAsync cfg env lock count (Some (maximumApiRetry cfg)) s"
  by (rule trans [OF getDeviceActivityAsync.simps], rule sym,
      rule trans [OF getDeviceActivityAsync.simps], simp)

subsection \<open>How many attempts are made when all fail\<close>

lemma token_exhausts:
  assumes down: "\<forall>h req. post_token env h req = Inl e"
  shows "cached (accessToken (expire s)) = None \<longrightarrow>
    (\<exists>s'. getAccessTokenAsync cfg env retryCount s = (Inl e, s') \<and>
       attempts Token (sent s') =
         attempts Token (sent s) + max 1 (nat (orDefault retryCount (maximumTokenRetry cfg))))"
proof (induction retryCount s rule: token_induct [where cfg = cfg and env = env])
  case (cached retryCount s token)
  then show ?case by simp
next
  case (fetched retryCount s response)
  with down show ?case by simp
next
  case (retried retryCount s e')
  let ?s = "delay (tokenRetryInterval cfg)
      (send env (PostToken (emailAddress cfg) (password cfg)) (expire s))"
  have "cached (accessToken (expire ?s)) = None"
    using retried(1) by (auto simp: expire_def split: option.splits)
  with retried(4) obtain s' where "getAccessTokenAsync cfg env retryCount s = (Inl e, s')"
    and "attempts Token (sent s') = attempts Token (sent ?s) +
      max 1 (nat (orDefault (Some (orDefault retryCount (maximumTokenRetry cfg) - 1))
        (maximumTokenRetry cfg)))"
    by blast
  then show ?case using retried(3) by (auto simp: max_def)
next
  case (thrown retryCount s e')
  with down show ?case by (auto simp: max_def)
qed

lemma retry_exhausts_any:
  fixes attempt :: "string \<Rightarrow> state \<Rightarrow> ((error + 'a) \<times> state) option"
  assumes tok: "token_ok env" and k: "k \<noteq> Token"
    and fail: "\<And>token s1. \<exists>s2. attempt token s1 = Some (Inl e, s2) \<and>
      attempts k (sent s2) = Suc (attempts k (sent s1))"
  shows "\<exists>s'. retry cfg env attempt n s = Some (Inl e, s') \<and>
      attempts k (sent s') = attempts k (sent s) + max 1 (nat n)"
proof (cases "n \<le> 0")
  case True
  from token_ok_succeeds [OF tok, of cfg None s] obtain token s1
    where t: "getAccessTokenAsync cfg env None s = (Inr token, s1)" by blast
  have c: "attempts k (sent s1) = attempts k (sent s)"
    using getAccessTokenAsync_attempts [OF k, of cfg env None s] t by simp
  from fail [of token s1] obtain s2 where a: "attempt token s1 = Some (Inl e, s2)"
    and c2: "attempts k (sent s2) = Suc (attempts k (sent s1))" by blast
  have "\<not> n - 1 > 0" using True by simp
  from retry_gave_up [where attempt = attempt, OF t a this] c c2 True show ?thesis
    by (simp add: max_def)
next
  case False
  then obtain j where j: "nat n = Suc j" by (cases "nat n") auto
  have "max 1 (nat n) = nat n" using False by simp
  with retry_exhausts [where attempt = attempt, OF tok k fail j, of cfg s]
  show ?thesis by simp
qed

lemma exhausts_with_zero:
  assumes tok: "token_ok env"
  shows "((\<forall>h req. get_locks env h req = Inl e) \<longrightarrow>
      (\<exists>s'. getLocksAsync cfg env (Some 0) s = (Inl e, s') \<and>
         attempts Locks (sent s') =
           attempts Locks (sent s) + max 1 (nat (maximumApiRetry cfg))) \<and>
      (\<exists>s'. getLockByNameAsync cfg env name (Some 0) s = (Inl e, s') \<and>
         attempts Locks (sent s') =
           attempts Locks (sent s) + max 1 (nat (maximumApiRetry cfg)))) \<and>
    ((\<forall>h req. get_locks_sync env h req = Inl e) \<longrightarrow>
      (\<exists>s'. syncLocksAsync cfg env (Some 0) s = (Inl e, s') \<and>
         attempts LocksSync (sent s') =
           attempts LocksSync (sent s) + max 1 (nat (maximumApiRetry cfg)))) \<and>
    ((\<forall>h req. get_lock_sync env h req = Inl e) \<longrightarrow>
      (\<exists>s'. syncLockAsync cfg env id' (Some 0) s = (Inl e, s') \<and>
         attempts LockSyncOf (sent s') =
           attempts LockSyncOf (sent s) + max 1 (nat (maximumApiRetry cfg)))) \<and>
    ((\<forall>h req. operation env h req = Inl e) \<longrightarrow>
      (\<exists>s'. closeAsync cfg env lock (Some 0) s = Some (Inl e, s') \<and>
         attempts Close (sent s') =
           attempts Close (sent s) + max 1 (nat (maximumApiRetry cfg))) \<and>
      (\<exists>s'. openAsync cfg env lock (Some 0) s = Some (Inl e, s') \<and>
         attempts Open (sent s') =
           attempts Open (sent s) + max 1 (nat (maximumApiRetry cfg))) \<and>
      (\<exists>s'. pullSpringAsync cfg env lock (Some 0) s = Some (Inl e, s') \<and>
         attempts PullSpring (sent s') =
           attempts PullSpring (sent s) + max 1 (nat (maximumApiRetry cfg))))"
proof -
  have G: "\<exists>s'. retry cfg env (\<lambda>token. get_attempt endpoint env (req token))
        (maximumApiRetry cfg) s = Some (Inl e, s') \<and>
      attempts k (sent s') = attempts k (sent s) + max 1 (nat (maximumApiRetry cfg))"
    if "\<forall>h r. endpoint h r = Inl e" "k \<noteq> Token" "\<And>token. route_of (req token) = k"
    for k req and endpoint :: "request list \<Rightarrow> request \<Rightarrow> error + 'r Response"
    by (rule retry_exhausts_any [OF tok that(2)]) (simp add: get_attempt_def that)
  have C: "\<exists>s'. retry cfg env (\<lambda>token. command_attempt env (req token) token)
        (maximumApiRetry cfg) s = Some (Inl e, s') \<and>
      attempts k (sent s') = attempts k (sent s) + max 1 (nat (maximumApiRetry cfg))"
    if "\<forall>h r. operation env h r = Inl e" "k \<noteq> Token" "\<And>token. route_of (req token) = k"
    for k req
    by (rule retry_exhausts_any [OF tok that(2)]) (simp add: command_attempt_def that)
  have locks: "\<exists>s'. getLocksAsync cfg env (Some 0) s = (Inl e, s') \<and>
      attempts Locks (sent s') = attempts Locks (sent s) + max 1 (nat (maximumApiRetry cfg))"
    if "\<forall>h req. get_locks env h req = Inl e"
    using G [of "get_locks env" Locks GetLocks, OF that]
      getLocksAsync_retry [of "Some 0" cfg _ env s, OF refl]
    by (cases "getLocksAsync cfg env (Some 0) s") auto
  have byName: "\<exists>s'. getLockByNameAsync cfg env name (Some 0) s = (Inl e, s') \<and>
      attempts Locks (sent s') = attempts Locks (sent s) + max 1 (nat (maximumApiRetry cfg))"
    if "\<forall>h req. get_locks env h req = Inl e"
    using locks [OF that] by (auto simp: getLockByNameAsync_def)
  have syncs: "\<exists>s'. syncLocksAsync cfg env (Some 0) s = (Inl e, s') \<and>
      attempts LocksSync (sent s') =
        attempts LocksSync (sent s) + max 1 (nat (maximumApiRetry cfg))"
    if "\<forall>h req. get_locks_sync env h req = Inl e"
    using G [of "get_locks_sync env" LocksSync GetLocksSync, OF that]
      syncLocksAsync_retry [of "Some 0" cfg _ env s, OF refl]
    by (cases "syncLocksAsync cfg env (Some 0) s") auto
  have sync: "\<exists>s'. syncLockAsync cfg env id' (Some 0) s = (Inl e, s') \<and>
      attempts LockSyncOf (sent s') =
        attempts LockSyncOf (sent s) + max 1 (nat (maximumApiRetry cfg))"
    if "\<forall>h req. get_lock_sync env h req = Inl e"
    using G [of "get_lock_sync env" LockSyncOf "GetLockSync id'", OF that]
      syncLockAsync_retry [of "Some 0" cfg _ env id' s, OF refl]
    by (cases "syncLockAsync cfg env id' (Some 0) s") auto
  have commands: "(\<exists>s'. closeAsync cfg env lock (Some 0) s = Some (Inl e, s') \<and>
         attempts Close (sent s') =
           attempts Close (sent s) + max 1 (nat (maximumApiRetry cfg))) \<and>
      (\<exists>s'. openAsync cfg env lock (Some 0) s = Some (Inl e, s') \<and>
         attempts Open (sent s') =
           attempts Open (sent s) + max 1 (nat (maximumApiRetry cfg))) \<and>
      (\<exists>s'. pullSpringAsync cfg env lock (Some 0) s = Some (Inl e, s') \<and>
         attempts PullSpring (sent s') =
           attempts PullSpring (sent s) + max 1 (nat (maximumApiRetry cfg)))"
    if "\<forall>h req. operation env h req = Inl e"
    using C [of Close "PostClose (lock_id lock)", OF that]
      C [of Open "PostOpen (lock_id lock)", OF that]
      C [of PullSpring "PostPullSpring (lock_id lock)", OF that]
    by (simp add: closeAsync_retry [OF refl] openAsync_retry [OF refl]
        pullSpringAsync_retry [OF refl])
  show ?thesis
    using locks byName syncs sync commands by blast
qed

lemma command_first_attempt:
  assumes t: "getAccessTokenAsync cfg env None s = (Inr token, st)"
  shows "operation env (sent st) (req token) = Inr response \<Longrightarrow>
      status (result response) = Completed \<Longrightarrow>
      retry cfg env (\<lambda>token. command_attempt env (req token) token) n s =
        Some (Inr (), send env (req token) st)"
    and "operation env (sent st) (req token) = Inl e \<Longrightarrow> n \<le> 1 \<Longrightarrow>
      retry cfg env (\<lambda>token. command_attempt env (req token) token) n s =
        Some (Inl e, send env (req token) st)"
proof -
  assume "operation env (sent st) (req token) = Inr response"
    and "status (result response) = Completed"
  then have "command_attempt env (req token) token st = Some (Inr (), send env (req token) st)"
    by (simp add: command_attempt_def wait_done)
  from retry_done [where attempt = "\<lambda>token. command_attempt env (req token) token", OF t this]
  show "retry cfg env (\<lambda>token. command_attempt env (req token) token) n s =
      Some (Inr (), send env (req token) st)" .
next
  assume "operation env (sent st) (req token) = Inl e" and n: "n \<le> 1"
  then have a: "command_attempt env (req token) token st = Some (Inl e, send env (req token) st)"
    by (simp add: command_attempt_def)
  have "\<not> n - 1 > 0" using n by simp
  from retry_gave_up [where attempt = "\<lambda>token. command_attempt env (req token) token",
      OF t a this]
  show "retry cfg env (\<lambda>token. command_attempt env (req token) token) n s =
      Some (Inl e, send env (req token) st)" .
qed

subsection \<open>Runs with a retry count of zero\<close>

lemma online_token_ok: "token_ok online"
  by (simp add: token_ok_def online_def offline_def)

lemma fixture_fields:
  "maximumTokenRetry uneven_config = 2"
  "maximumApiRetry uneven_config = 4"
  "maximumApiRetry no_retry_config = 0"
  "lock_id demo_lock = 7"
  "post_token offline h req = Inl (Error ''offline'')"
  "get_locks online h req = Inl (Error ''offline'')"
  "operation online h req = Inl (Error ''offline'')"
  "get_deviceactivity online h req = Inl (Error ''offline'')"
  "operation prompt h req = Inr completed"
  "status (result completed) = Completed"
  "get_deviceactivity (busy_until 0) h req = Inr (ok [])"
  "result (ok r) = r"
  "latency online h req = 5"
  "latency prompt h req = 5"
  "latency (busy_until 0) h req = 5"
  "cached (accessToken (expire (initial 0))) = None"
  "sent (initial 0) = []"
  by (simp_all add: initial_def expire_def uneven_config_def no_retry_config_def demo_config_def demo_lock_def
      offline_def online_def prompt_def busy_until_def completed_def ok_def)

lemma uneven_offline_token_run:
  "getAccessTokenAsync uneven_config offline (Some 0) (initial 0) =
     (Inl (Error ''offline''),
      \<lparr>expirationDateTime = None, accessToken = None, clock = 510,
       sent = [PostToken ''user@example.org'' ''secret'',
               PostToken ''user@example.org'' ''secret'']\<rparr>)"
  by code_simp

lemma uneven_token_run:
  "getAccessTokenAsync uneven_config online None (initial 0) =
     (Inr ''tok'',
      \<lparr>expirationDateTime = Some 3600005, accessToken = Some ''tok'', clock = 5,
       sent = [PostToken ''user@example.org'' ''secret'']\<rparr>)"
  "getAccessTokenAsync uneven_config prompt None (initial 0) =
     (Inr ''tok'',
      \<lparr>expirationDateTime = Some 3600005, accessToken = Some ''tok'', clock = 5,
       sent = [PostToken ''user@example.org'' ''secret'']\<rparr>)"
  "getAccessTokenAsync uneven_config (busy_until 0) None (initial 0) =
     (Inr ''tok'',
      \<lparr>expirationDateTime = Some 3600005, accessToken = Some ''tok'', clock = 5,
       sent = [PostToken ''user@example.org'' ''secret'']\<rparr>)"
  by code_simp+

lemma uneven_locks_run:
  "getLocksAsync uneven_config online (Some 0) (initial 0) =
     (Inl (Error ''offline''),
      \<lparr>expirationDateTime = Some 3600005, accessToken = Some ''tok'', clock = 3025,
       sent = [PostToken ''user@example.org'' ''secret'', GetLocks ''tok'', GetLocks ''tok'',
               GetLocks ''tok'', GetLocks ''tok'']\<rparr>)"
  by code_simp

lemma uneven_close_run:
  "closeAsync uneven_config online demo_lock (Some 0) (initial 0) =
     Some (Inl (Error ''offline''),
      \<lparr>expirationDateTime = Some 3600005, accessToken = Some ''tok'', clock = 3025,
       sent = [PostToken ''user@example.org'' ''secret'', PostClose 7 ''tok'', PostClose 7 ''tok'',
               PostClose 7 ''tok'', PostClose 7 ''tok'']\<rparr>)"
  by code_simp

lemma prompt_close_run:
  "closeAsync uneven_config prompt demo_lock (Some 0) (initial 0) =
     Some (Inr (),
      \<lparr>expirationDateTime = Some 3600005, accessToken = Some ''tok'', clock = 10,
       sent = [PostToken ''user@example.org'' ''secret'', PostClose 7 ''tok'']\<rparr>)"
  by code_simp

lemma uneven_activity_run:
  "getDeviceActivityAsync uneven_config (busy_until 0) demo_lock 4 (Some 0) (initial 0) =
     Some (Inr [],
      \<lparr>expirationDateTime = Some 3600005, accessToken = Some ''tok'', clock = 10,
       sent = [PostToken ''user@example.org'' ''secret'', GetDeviceActivity 7 4 ''tok'']\<rparr>)"
  by code_simp

lemma no_retry_activity_run:
  "getDeviceActivityAsync no_retry_config online demo_lock 4 (Some 0) (initial 0) =
     Some (Inl (Error ''offline''),
      \<lparr>expirationDateTime = Some 3600005, accessToken = Some ''tok'', clock = 10,
       sent = [PostToken ''user@example.org'' ''secret'', GetDeviceActivity 7 4 ''tok'']\<rparr>)"
  by code_simp

section \<open>The claims\<close>

text \<open>
  C1, on the code as it is. The claim: a cached token is returned without a request while
  the current time is before the stored expiry minus 120 seconds, and from then on the
  cache is invalidated and one refresh request is made. The code compares the other way
  round (\<open>expiry < now - 120s\<close>): one minute before the expiry, and one minute after
  it, the cached token is still returned, nothing is invalidated and no request is sent.
\<close>

theorem getAccessTokenAsync_keeps_token_near_expiry:
  "getAccessTokenAsync cfg env retryCount
       \<lparr>expirationDateTime = Some 1000000, accessToken = Some ''tok'',
        clock = 940000, sent = []\<rparr>
     = (Inr ''tok'',
        \<lparr>expirationDateTime = Some 1000000, accessToken = Some ''tok'',
         clock = 940000, sent = []\<rparr>) \<and>
   getAccessTokenAsync cfg env retryCount
       \<lparr>expirationDateTime = Some 1000000, accessToken = Some ''tok'',
        clock = 1060000, sent = []\<rparr>
     = (Inr ''tok'',
        \<lparr>expirationDateTime = Some 1000000, accessToken = Some ''tok'',
         clock = 1060000, sent = []\<rparr>)"
  by (simp add: getAccessTokenAsync.simps expire_def)

text \<open>
  C7: \<open>getLockByNameAsync\<close> does what \<open>getLocksAsync\<close> does and nothing more to the
  state; an exception of \<open>getLocksAsync\<close> is passed on; of the list returned it gives
  the first lock whose name is the given one, and \<open>undefined\<close> (\<open>None\<close>) when no lock
  of the list has that name.
\<close>

theorem getLockByNameAsync_first_match:
  "(case getLocksAsync cfg env retryCount s of
      (Inl e, s') \<Rightarrow> getLockByNameAsync cfg env name retryCount s = (Inl e, s')
    | (Inr locks, s') \<Rightarrow>
        (\<exists>found. getLockByNameAsync cfg env name retryCount s = (Inr found, s') \<and>
          (case found of
             None \<Rightarrow> \<forall>l \<in> set locks. lock_name l \<noteq> name
           | Some l \<Rightarrow> \<exists>i < length locks. l = locks ! i \<and> lock_name l = name \<and>
                 (\<forall>j < i. lock_name (locks ! j) \<noteq> name))))"
  by (auto simp: getLockByNameAsync_def find_None_iff find_Some_iff
      split: prod.splits sum.splits option.splits)

theorem getLockByNameAsync_first_match_witness:
  "fst (getLockByNameAsync demo_config house ''back'' None (initial 0)) =
     Inr (Some \<lparr>lock_id = 2, lock_name = ''back''\<rparr>) \<and>
   fst (getLockByNameAsync demo_config house ''garage'' None (initial 0)) = Inr None"
  using getLockByNameAsync_first_match [where cfg = demo_config and env = house
      and retryCount = None and s = "initial 0" and name = "''back''"]
    getLockByNameAsync_first_match [where cfg = demo_config and env = house
      and retryCount = None and s = "initial 0" and name = "''garage''"]
  by (simp add: house_locks_run getLockByNameAsync_def house_locks_def)

text \<open>
  C8: the HTTP calls, the timed waits and the polling loop leave \<open>accessToken\<close> and
  \<open>expirationDateTime\<close> as they are, and every public operation that returns or
  throws takes the state through HTTP calls, timed waits and calls of
  \<open>getAccessTokenAsync\<close> and nothing else: the two fields are written by
  \<open>getAccessTokenAsync\<close> only.
\<close>

theorem token_fields_change_only_by_refresh:
  "accessToken (send env req s) = accessToken s \<and>
   expirationDateTime (send env req s) = expirationDateTime s \<and>
   accessToken (delay ms s) = accessToken s \<and>
   expirationDateTime (delay ms s) = expirationDateTime s \<and>
   (\<forall>y. waitForCompletion env token response s = Some y \<longrightarrow>
      accessToken (snd y) = accessToken s \<and> expirationDateTime (snd y) = expirationDateTime s) \<and>
   only_token_refresh cfg env s (snd (getLocksAsync cfg env retryCount s)) \<and>
   only_token_refresh cfg env s (snd (getLockByNameAsync cfg env name retryCount s)) \<and>
   only_token_refresh cfg env s (snd (syncLocksAsync cfg env retryCount s)) \<and>
   only_token_refresh cfg env s (snd (syncLockAsync cfg env id' retryCount s)) \<and>
   (\<forall>y. closeAsync cfg env lock retryCount s = Some y \<longrightarrow>
      only_token_refresh cfg env s (snd y)) \<and>
   (\<forall>y. openAsync cfg env lock retryCount s = Some y \<longrightarrow>
      only_token_refresh cfg env s (snd y)) \<and>
   (\<forall>y. pullSpringAsync cfg env lock retryCount s = Some y \<longrightarrow>
      only_token_refresh cfg env s (snd y)) \<and>
   (\<forall>y. getDeviceActivityAsync cfg env lock count retryCount s = Some y \<longrightarrow>
      only_token_refresh cfg env s (snd y)) \<and>
   (\<forall>y. getLatestDeviceActivityAsync cfg env lock retryCount s = Some y \<longrightarrow>
      only_token_refresh cfg env s (snd y))"
proof -
  have "accessToken (snd y) = accessToken s \<and> expirationDateTime (snd y) = expirationDateTime s"
    if "waitForCompletion env token response s = Some y" for y
    using wait_returns(1,2) [of env token response s "fst y" "snd y"] that by simp
  then show ?thesis
    by (simp add: getLocksAsync_frame getLockByNameAsync_frame syncLocksAsync_frame
        syncLockAsync_frame closeAsync_frame openAsync_frame pullSpringAsync_frame
        getDeviceActivityAsync_frame getLatestDeviceActivityAsync_frame)
qed

theorem token_fields_change_only_by_refresh_witness:
  "closeAsync demo_config slow demo_lock None (initial 0) =
     Some (Inr (),
       \<lparr>expirationDateTime = Some 3600005, accessToken = Some ''tok'', clock = 2020,
        sent = [PostToken ''user@example.org'' ''secret'', PostClose 7 ''tok'',
                GetOperation ''op'' ''tok'', GetOperation ''op'' ''tok'']\<rparr>) \<and>
   only_token_refresh demo_config slow (initial 0)
     \<lparr>expirationDateTime = Some 3600005, accessToken = Some ''tok'', clock = 2020,
      sent = [PostToken ''user@example.org'' ''secret'', PostClose 7 ''tok'',
              GetOperation ''op'' ''tok'', GetOperation ''op'' ''tok'']\<rparr>"
  using token_fields_change_only_by_refresh [where cfg = demo_config and env = slow
      and lock = demo_lock and retryCount = None and s = "initial 0"]
    slow_close_run
  by auto

text \<open>
  C9, on the code as it is: a token request answered with the empty string as
  \<open>access_token\<close> stores it; the next call takes the empty string for no token, asks
  again, and when that fails throws with \<open>accessToken\<close> and \<open>expirationDateTime\<close> both
  set, not \<open>null\<close>.
\<close>

theorem refresh_throws_with_fields_set:
  "getAccessTokenAsync demo_config empty_token None (initial 0) =
     (Inr [],
      \<lparr>expirationDateTime = Some 3600005, accessToken = Some [], clock = 5,
       sent = [PostToken ''user@example.org'' ''secret'']\<rparr>) \<and>
   getAccessTokenAsync demo_config empty_token None
      \<lparr>expirationDateTime = Some 3600005, accessToken = Some [], clock = 5,
       sent = [PostToken ''user@example.org'' ''secret'']\<rparr> =
     (Inl (Error ''offline''),
      \<lparr>expirationDateTime = Some 3600005, accessToken = Some [], clock = 1020,
       sent = [PostToken ''user@example.org'' ''secret'', PostToken ''user@example.org'' ''secret'',
               PostToken ''user@example.org'' ''secret'', PostToken ''user@example.org'' ''secret'']\<rparr>)"
  by code_simp

text \<open>
  C9, amended: \<open>accessToken\<close> is \<open>null\<close> if and only if \<open>expirationDateTime\<close> is, in the
  initial state and after every operation that returns or throws; and whenever
  \<open>getAccessTokenAsync\<close> throws, the client holds no token it would use: \<open>accessToken\<close>
  is \<open>null\<close> or the empty string.
\<close>

theorem token_invariant_kept:
  "token_invariant (initial t) \<and>
   (token_invariant s \<longrightarrow>
      token_invariant (snd (getAccessTokenAsync cfg env retryCount s)) \<and>
      token_invariant (snd (getLocksAsync cfg env retryCount s)) \<and>
      token_invariant (snd (getLockByNameAsync cfg env name retryCount s)) \<and>
      token_invariant (snd (syncLocksAsync cfg env retryCount s)) \<and>
      token_invariant (snd (syncLockAsync cfg env id' retryCount s)) \<and>
      (\<forall>y. closeAsync cfg env lock retryCount s = Some y \<longrightarrow> token_invariant (snd y)) \<and>
      (\<forall>y. openAsync cfg env lock retryCount s = Some y \<longrightarrow> token_invariant (snd y)) \<and>
      (\<forall>y. pullSpringAsync cfg env lock retryCount s = Some y \<longrightarrow> token_invariant (snd y)) \<and>
      (\<forall>y. getDeviceActivityAsync cfg env lock count retryCount s = Some y \<longrightarrow>
         token_invariant (snd y)) \<and>
      (\<forall>y. getLatestDeviceActivityAsync cfg env lock retryCount s = Some y \<longrightarrow>
         token_invariant (snd y))) \<and>
   (\<forall>e s'. getAccessTokenAsync cfg env retryCount s = (Inl e, s') \<longrightarrow>
      cached (accessToken s') = None)"
proof -
  have "token_invariant (initial t)" by (simp add: token_invariant_def initial_def)
  moreover have "cached (accessToken s') = None"
    if "getAccessTokenAsync cfg env retryCount s = (Inl e, s')" for e s'
    using that by (rule getAccessTokenAsync_thrown)
  moreover have "token_invariant s'" if "token_invariant s" "only_token_refresh cfg env s s'" for s'
    using that by (auto intro: only_token_refresh_invariant)
  ultimately show ?thesis
    by (auto simp: getAccessTokenAsync_invariant getLocksAsync_frame getLockByNameAsync_frame
        syncLocksAsync_frame syncLockAsync_frame closeAsync_frame openAsync_frame
        pullSpringAsync_frame getDeviceActivityAsync_frame getLatestDeviceActivityAsync_frame)
qed

theorem token_invariant_kept_witness:
  "token_invariant (initial 0) \<and>
   getAccessTokenAsync demo_config offline None (initial 0) =
     (Inl (Error ''offline''),
      \<lparr>expirationDateTime = None, accessToken = None, clock = 1015,
       sent = [PostToken ''user@example.org'' ''secret'', PostToken ''user@example.org'' ''secret'',
               PostToken ''user@example.org'' ''secret'']\<rparr>) \<and>
   token_invariant
      \<lparr>expirationDateTime = None, accessToken = None, clock = 1015,
       sent = [PostToken ''user@example.org'' ''secret'', PostToken ''user@example.org'' ''secret'',
               PostToken ''user@example.org'' ''secret'']\<rparr> \<and>
   token_invariant
       \<lparr>expirationDateTime = Some 3600005, accessToken = Some ''tok'', clock = 2020,
        sent = [PostToken ''user@example.org'' ''secret'', PostClose 7 ''tok'',
                GetOperation ''op'' ''tok'', GetOperation ''op'' ''tok'']\<rparr>"
  using token_invariant_kept [where cfg = demo_config and env = offline and t = 0
      and retryCount = None and s = "initial 0"]
    token_invariant_kept [where cfg = demo_config and env = slow and t = 0
      and lock = demo_lock and retryCount = None and s = "initial 0"]
    offline_token_run slow_close_run
  by (auto simp: token_invariant_def)

text \<open>
  C5: when the command is accepted as not completed, the first status poll reports not
  completed and the second reports \<open>Completed\<close>, each of \<open>closeAsync\<close>, \<open>openAsync\<close>
  and \<open>pullSpringAsync\<close> returns after the POST and exactly two GET status polls.
\<close>

theorem two_polls_before_returning:
  assumes "getAccessTokenAsync cfg env None s = (Inr token, s1)"
  shows "(pendingPendingCompleted env (sent s1) (PostClose (lock_id lock) token) token \<longrightarrow>
      (\<exists>o1 o2 s'. closeAsync cfg env lock retryCount s = Some (Inr (), s') \<and>
         sent s' = sent s1 @
           [PostClose (lock_id lock) token, GetOperation o1 token, GetOperation o2 token])) \<and>
    (pendingPendingCompleted env (sent s1) (PostOpen (lock_id lock) token) token \<longrightarrow>
      (\<exists>o1 o2 s'. openAsync cfg env lock retryCount s = Some (Inr (), s') \<and>
         sent s' = sent s1 @
           [PostOpen (lock_id lock) token, GetOperation o1 token, GetOperation o2 token])) \<and>
    (pendingPendingCompleted env (sent s1) (PostPullSpring (lock_id lock) token) token \<longrightarrow>
      (\<exists>o1 o2 s'. pullSpringAsync cfg env lock retryCount s = Some (Inr (), s') \<and>
         sent s' = sent s1 @
           [PostPullSpring (lock_id lock) token, GetOperation o1 token, GetOperation o2 token]))"
proof -
  have "\<exists>o1 o2 s'. retry cfg env (\<lambda>token. command_attempt env (post token) token) n s =
          Some (Inr (), s') \<and>
        sent s' = sent s1 @ [post token, GetOperation o1 token, GetOperation o2 token]"
    if "pendingPendingCompleted env (sent s1) (post token) token" for post n
  proof -
    from command_attempt_two_polls [OF that] obtain o1 o2 s2 where
      a: "command_attempt env (post token) token s1 = Some (Inr (), s2)"
      and b: "sent s2 = sent s1 @ [post token, GetOperation o1 token, GetOperation o2 token]"
      by blast
    have "retry cfg env (\<lambda>token. command_attempt env (post token) token) n s = Some (Inr (), s2)"
      using assms a by (simp add: retry.simps [of cfg env _ n s])
    with b show ?thesis by blast
  qed
  from this [of "PostClose (lock_id lock)"] this [of "PostOpen (lock_id lock)"]
    this [of "PostPullSpring (lock_id lock)"]
  show ?thesis
    by (simp add: closeAsync_retry [OF refl] openAsync_retry [OF refl] pullSpringAsync_retry [OF refl])
qed

theorem two_polls_before_returning_witness:
  "getAccessTokenAsync demo_config slow None (initial 0) =
     (Inr ''tok'',
      \<lparr>expirationDateTime = Some 3600005, accessToken = Some ''tok'', clock = 5,
       sent = [PostToken ''user@example.org'' ''secret'']\<rparr>) \<and>
   pendingPendingCompleted slow [PostToken ''user@example.org'' ''secret'']
     (PostClose 7 ''tok'') ''tok'' \<and>
   (\<exists>o1 o2 s'. closeAsync demo_config slow demo_lock None (initial 0) = Some (Inr (), s') \<and>
      sent s' = [PostToken ''user@example.org'' ''secret''] @
        [PostClose 7 ''tok'', GetOperation o1 ''tok'', GetOperation o2 ''tok'']) \<and>
   (\<exists>o1 o2 s'. openAsync demo_config slow demo_lock None (initial 0) = Some (Inr (), s') \<and>
      sent s' = [PostToken ''user@example.org'' ''secret''] @
        [PostOpen 7 ''tok'', GetOperation o1 ''tok'', GetOperation o2 ''tok'']) \<and>
   (\<exists>o1 o2 s'. pullSpringAsync demo_config slow demo_lock None (initial 0) = Some (Inr (), s') \<and>
      sent s' = [PostToken ''user@example.org'' ''secret''] @
        [PostPullSpring 7 ''tok'', GetOperation o1 ''tok'', GetOperation o2 ''tok''])"
  using two_polls_before_returning [OF slow_token_run, of demo_lock None]
    slow_token_run slow_pendingPendingCompleted
  by (simp add: demo_lock_def)

text \<open>
  C6: a call of \<open>closeAsync\<close>, \<open>openAsync\<close> or \<open>pullSpringAsync\<close> that returns normally
  has received a response with status \<open>Completed\<close> to a command or a poll it sent; and
  when every poll is answered with a status other than \<open>Completed\<close>, the polling loop
  does not terminate, nor does the call whose command was accepted as not completed.
\<close>

theorem returns_only_when_completed:
  "(\<forall>s'. closeAsync cfg env lock retryCount s = Some (Inr (), s') \<longrightarrow>
      (\<exists>new. sent s' = sent s @ new \<and> completedIn env (sent s) new)) \<and>
   (\<forall>s'. openAsync cfg env lock retryCount s = Some (Inr (), s') \<longrightarrow>
      (\<exists>new. sent s' = sent s @ new \<and> completedIn env (sent s) new)) \<and>
   (\<forall>s'. pullSpringAsync cfg env lock retryCount s = Some (Inr (), s') \<longrightarrow>
      (\<exists>new. sent s' = sent s @ new \<and> completedIn env (sent s) new)) \<and>
   (neverCompleted env \<and> status (result response) \<noteq> Completed \<longrightarrow>
      waitForCompletion env token response sp = None) \<and>
   (neverCompleted env \<and> getAccessTokenAsync cfg env None s = (Inr token, st) \<longrightarrow>
      (operation env (sent st) (PostClose (lock_id lock) token) = Inr response \<and>
       status (result response) \<noteq> Completed \<longrightarrow>
         closeAsync cfg env lock retryCount s = None) \<and>
      (operation env (sent st) (PostOpen (lock_id lock) token) = Inr response \<and>
       status (result response) \<noteq> Completed \<longrightarrow>
         openAsync cfg env lock retryCount s = None) \<and>
      (operation env (sent st) (PostPullSpring (lock_id lock) token) = Inr response \<and>
       status (result response) \<noteq> Completed \<longrightarrow>
         pullSpringAsync cfg env lock retryCount s = None))"
proof -
  have A: "\<exists>new. sent s' = sent s @ new \<and> completedIn env (sent s) new"
    if "retry cfg env (\<lambda>token. command_attempt env (post token) token) n s = Some (Inr (), s')"
      and "\<And>token. route_of (post token) \<in> {Close, Open, PullSpring, Poll}"
    for post n s'
    using retry_completed [OF that(1)] command_attempt_completed that(2) by blast
  have B: "retry cfg env (\<lambda>token. command_attempt env (post token) token) n s = None"
    if "neverCompleted env" "getAccessTokenAsync cfg env None s = (Inr token, st)"
      "operation env (sent st) (post token) = Inr response"
      "status (result response) \<noteq> Completed"
    for post n
  proof -
    have "command_attempt env (post token) token st = None"
      using that by (simp add: command_attempt_def never_completed_wait)
    with that(2) show ?thesis by (simp add: retry.simps [of cfg env _ n s])
  qed
  show ?thesis
    using A [of "PostClose (lock_id lock)"] A [of "PostOpen (lock_id lock)"]
      A [of "PostPullSpring (lock_id lock)"]
      B [of "PostClose (lock_id lock)"] B [of "PostOpen (lock_id lock)"]
      B [of "PostPullSpring (lock_id lock)"]
    by (simp add: closeAsync_retry [OF refl] openAsync_retry [OF refl]
        pullSpringAsync_retry [OF refl] never_completed_wait)
qed


theorem returns_only_when_completed_witness:
  "closeAsync demo_config slow demo_lock None (initial 0) =
     Some (Inr (),
       \<lparr>expirationDateTime = Some 3600005, accessToken = Some ''tok'', clock = 2020,
        sent = [PostToken ''user@example.org'' ''secret'', PostClose 7 ''tok'',
                GetOperation ''op'' ''tok'', GetOperation ''op'' ''tok'']\<rparr>) \<and>
   completedIn slow []
     [PostToken ''user@example.org'' ''secret'', PostClose 7 ''tok'',
      GetOperation ''op'' ''tok'', GetOperation ''op'' ''tok''] \<and>
   neverCompleted stuck \<and>
   status (result pending) \<noteq> Completed \<and>
   waitForCompletion stuck ''tok'' pending (initial 0) = None \<and>
   closeAsync demo_config stuck demo_lock None (initial 0) = None \<and>
   openAsync demo_config stuck demo_lock None (initial 0) = None \<and>
   pullSpringAsync demo_config stuck demo_lock None (initial 0) = None"
  using returns_only_when_completed [where cfg = demo_config and env = slow
      and lock = demo_lock and retryCount = None and s = "initial 0"]
    returns_only_when_completed [where cfg = demo_config and env = stuck
      and lock = demo_lock and retryCount = None and s = "initial 0" and token = "''tok''"
      and response = pending and sp = "initial 0"
      and st = "\<lparr>expirationDateTime = Some 3600005, accessToken = Some ''tok'', clock = 5,
         sent = [PostToken ''user@example.org'' ''secret'']\<rparr>"]
    slow_close_run stuck_neverCompleted stuck_token_run stuck_post
  by (auto simp: initial_def)

text \<open>
  C2, on the code as it is. The claim: an operation all of whose attempts fail makes
  exactly \<open>maximumApiRetry\<close> attempts and then throws the error of the failing attempt.
  \<open>getLocksAsync\<close> does so (here three attempts, then the error of the endpoint; in
  general, and for its five siblings, \<open>siblings_give_up_after_maximumApiRetry\<close>). The
  retry of \<open>getDeviceActivityAsync\<close> passes the counter as \<open>count\<close> and omits
  \<open>retryCount\<close>, so every retry starts from \<open>maximumApiRetry\<close> again: with the activity
  endpoint rejecting every request the call never throws and never returns.
\<close>

theorem getDeviceActivityAsync_retries_forever:
  "getLocksAsync demo_config online None (initial 0) =
     (Inl (Error ''offline''),
      \<lparr>expirationDateTime = Some 3600005, accessToken = Some ''tok'', clock = 2020,
       sent = [PostToken ''user@example.org'' ''secret'', GetLocks ''tok'', GetLocks ''tok'',
               GetLocks ''tok'']\<rparr>) \<and>
   getDeviceActivityAsync demo_config online demo_lock 1 None (initial 0) = None"
proof -
  have "token_ok online" by (simp add: token_ok_def online_def offline_def)
  moreover have "\<forall>h req. isl (get_deviceactivity online h req)"
    by (simp add: online_def offline_def)
  moreover have "2 \<le> maximumApiRetry demo_config" by (simp add: demo_config_def)
  ultimately have "getDeviceActivityAsync demo_config online demo_lock 1 None (initial 0) = None"
    by (rule activity_never_gives_up)
  moreover have "getLocksAsync demo_config online None (initial 0) =
     (Inl (Error ''offline''),
      \<lparr>expirationDateTime = Some 3600005, accessToken = Some ''tok'', clock = 2020,
       sent = [PostToken ''user@example.org'' ''secret'', GetLocks ''tok'', GetLocks ''tok'',
               GetLocks ''tok'']\<rparr>)"
    by code_simp
  ultimately show ?thesis by simp
qed

text \<open>
  C4, on the code as it is. The claim: \<open>getLatestDeviceActivityAsync\<close> asks for one
  activity record on every attempt. After a first attempt that fails, the retry of
  \<open>getDeviceActivityAsync\<close> passes the decremented counter in the place of \<open>count\<close>:
  with \<open>maximumApiRetry = 3\<close> the second request asks for two records.
\<close>

theorem getLatestDeviceActivityAsync_retry_asks_for_two:
  "getLatestDeviceActivityAsync demo_config (flaky Activity) demo_lock None (initial 0) =
     Some (Inr None,
       \<lparr>expirationDateTime = Some 3600005, accessToken = Some ''tok'', clock = 1015,
        sent = [PostToken ''user@example.org'' ''secret'', GetDeviceActivity 7 1 ''tok'',
                GetDeviceActivity 7 2 ''tok'']\<rparr>)"
  by code_simp




end
